theory Spec2Isabelle
  imports Complex_Main "HOL-Library.Multiset"
begin


section \<open>The live voice session hook (useLiveAgent)\<close>

text \<open>
  The hook keeps five React state slots and ten refs, and talks to the browser: audio
  contexts, a microphone stream, the duplex transport, an interval timer and the buffer
  sources it starts on the output context. The model is one record holding the state
  slots, the refs and the part of the browser the hook can change, together with the
  handlers that are suspended at an \<open>await\<close>: \<open>pendingMic\<close> counts the calls of \<open>connect\<close> that
  wait for the microphone, \<open>decoding\<close> lists the message handlers that wait for
  \<open>decodeAudioData\<close>, each with the persona and the message it holds. Handles of browser
  objects are natural numbers; \<open>lastHandle\<close> is the handle issued last, a new object gets
  its successor, so every handle is positive (as the identifiers returned by setInterval
  are). Times, durations, rates and levels are JavaScript numbers and are modelled as
  reals.
\<close>

subsection \<open>Persona and inbound messages\<close>

record VoiceSettings =
  speed :: real
  pitch :: real

text \<open>
  AgentPersona of the type declarations. The handler tests \<open>agent.voiceSettings\<close> before
  it reads it, so the field is optional in the model.
\<close>

record AgentPersona =
  agent_id :: string
  agent_name :: string
  voice :: string
  voiceSettings :: "VoiceSettings option"
  systemInstruction :: string
  avatarColor :: string

text \<open>
  LiveServerMessage, as far as the handler reads it:
  \<open>message.serverContent?.modelTurn?.parts?.[0]?.inlineData?.data\<close>,
  \<open>message.serverContent?.interrupted\<close> and \<open>message.serverContent?.turnComplete\<close>.
  Every link of the optional chain is an option.
\<close>

record InlineData =
  data :: "string option"

record Part =
  inlineData :: "InlineData option"

record ModelTurn =
  parts :: "Part list option"

record ServerContent =
  modelTurn :: "ModelTurn option"
  interrupted :: "bool option"
  turnComplete :: "bool option"

record LiveServerMessage =
  serverContent :: "ServerContent option"

definition base64Audio :: "LiveServerMessage \<Rightarrow> string option" where
  "base64Audio message =
     (case serverContent message of None \<Rightarrow> None
      | Some sc \<Rightarrow> (case modelTurn sc of None \<Rightarrow> None
        | Some mt \<Rightarrow> (case parts mt of None \<Rightarrow> None
          | Some ps \<Rightarrow> (case ps of [] \<Rightarrow> None
            | p # _ \<Rightarrow> (case inlineData p of None \<Rightarrow> None
              | Some d \<Rightarrow> data d)))))"

text \<open>Truthiness of an optional string: present and not empty.\<close>

definition truthy_string :: "string option \<Rightarrow> bool" where
  "truthy_string v = (case v of None \<Rightarrow> False | Some str \<Rightarrow> str \<noteq> [])"

definition truthy_flag :: "bool option \<Rightarrow> bool" where
  "truthy_flag v = (case v of None \<Rightarrow> False | Some b \<Rightarrow> b)"

definition is_interrupted :: "LiveServerMessage \<Rightarrow> bool" where
  "is_interrupted message =
     (case serverContent message of None \<Rightarrow> False | Some sc \<Rightarrow> truthy_flag (interrupted sc))"

definition is_turnComplete :: "LiveServerMessage \<Rightarrow> bool" where
  "is_turnComplete message =
     (case serverContent message of None \<Rightarrow> False | Some sc \<Rightarrow> truthy_flag (turnComplete sc))"

subsection \<open>The state of the hook\<close>

text \<open>\<open>{ input: number; output: number }\<close>\<close>

record VolumeLevels =
  input_level :: real
  output_level :: real

text \<open>A buffer source handed to the output device by \<open>source.start(when)\<close>.\<close>

record BufferSource =
  startAt :: real
  bufferDuration :: real
  playbackRate :: real
  detune :: real

record hook =
  isConnected :: bool
  isSpeaking :: bool
  isListening :: bool
  volumeLevels :: VolumeLevels
  error :: "string option"
  audioContextRef :: "nat option"
  inputContextRef :: "nat option"
  nextStartTimeRef :: real
  sessionRef :: "nat option"
  streamRef :: "nat option"
  processorRef :: "nat option"
  sourceRef :: "nat option"
  inputAnalyserRef :: "nat option"
  outputAnalyserRef :: "nat option"
  volumeIntervalRef :: "nat option"
  lastHandle :: nat
  openContexts :: "nat list"
  liveStreams :: "nat list"
  transports :: "nat list"
  timers :: "nat list"
  pendingMic :: nat
  decoding :: "(AgentPersona \<times> LiveServerMessage) list"
  started :: "BufferSource list"

definition zeroLevels :: VolumeLevels where
  "zeroLevels = \<lparr>input_level = 0, output_level = 0\<rparr>"

text \<open>The hook as useState and useRef initialise it, in a browser that holds nothing.\<close>

definition initial :: hook where
  "initial = \<lparr>isConnected = False, isSpeaking = False, isListening = False,
     volumeLevels = zeroLevels, error = None,
     audioContextRef = None, inputContextRef = None, nextStartTimeRef = 0,
     sessionRef = None, streamRef = None, processorRef = None, sourceRef = None,
     inputAnalyserRef = None, outputAnalyserRef = None, volumeIntervalRef = None,
     lastHandle = 0, openContexts = [], liveStreams = [], transports = [], timers = [],
     pendingMic = 0, decoding = [], started = []\<rparr>"

text \<open>
  A handler either returns or throws (for an async handler: its promise is rejected);
  in both cases the writes it made before stay.
\<close>

datatype completion = Returned hook | Threw hook

fun state_of :: "completion \<Rightarrow> hook" where
  "state_of (Returned s) = s"
| "state_of (Threw s) = s"

subsection \<open>Inbound messages: the playback scheduler and the speaking flag\<close>

text \<open>
  \<open>source.playbackRate.value = agent.voiceSettings.speed || 1.0\<close> and
  \<open>source.detune.value = agent.voiceSettings.pitch || 0\<close> when the persona has voice
  settings; a new source has rate 1 and detune 0. A JavaScript number is falsy when it is
  zero.
\<close>

definition sourceRate :: "AgentPersona \<Rightarrow> real" where
  "sourceRate agent =
     (case voiceSettings agent of None \<Rightarrow> 1
      | Some vs \<Rightarrow> (if speed vs = 0 then 1 else speed vs))"

definition sourceDetune :: "AgentPersona \<Rightarrow> real" where
  "sourceDetune agent =
     (case voiceSettings agent of None \<Rightarrow> 0
      | Some vs \<Rightarrow> (if pitch vs = 0 then 0 else pitch vs))"

text \<open>\<open>const rate = source.playbackRate.value || 1\<close>\<close>

definition advanceRate :: "AgentPersona \<Rightarrow> real" where
  "advanceRate agent = (if sourceRate agent = 0 then 1 else sourceRate agent)"

text \<open>
  The second half of the handler: the interruption flag resets the timeline to 0, the
  turn-complete flag clears the speaking flag.
\<close>

definition onmessage_flags :: "LiveServerMessage \<Rightarrow> hook \<Rightarrow> hook" where
  "onmessage_flags message s =
     (let s1 = (if is_interrupted message then s\<lparr>nextStartTimeRef := 0\<rparr> else s)
      in if is_turnComplete message then s1\<lparr>isSpeaking := False\<rparr> else s1)"

text \<open>
  The handler of one inbound message is an async function with one \<open>await\<close>, on
  \<open>decodeAudioData\<close> (imported from utils/audio; the handler uses only the duration of the
  buffer it gives). Other events are handled while a payload is decoded, so the handler
  is two steps.

  The first step, up to the \<open>await\<close>: \<open>now\<close> is \<open>audioContextRef.current.currentTime\<close> as the
  handler reads it. With a payload and an output context it sets the speaking flag,
  raises the timeline to the clock and suspends. Otherwise it goes straight to the flags
  and returns.
\<close>

datatype progress = Awaiting hook | Done completion

definition onmessage_begin ::
  "AgentPersona \<Rightarrow> LiveServerMessage \<Rightarrow> real \<Rightarrow> hook \<Rightarrow> progress" where
  "onmessage_begin agent message now s =
     (if truthy_string (base64Audio message) \<and> audioContextRef s \<noteq> None then
        Awaiting (s\<lparr>isSpeaking := True,
                    nextStartTimeRef := max (nextStartTimeRef s) now\<rparr>)
      else Done (Returned (onmessage_flags message s)))"

text \<open>
  The second step, from the point where the promise of \<open>decodeAudioData\<close> is settled,
  in the state the hook has by then. \<open>decoded\<close> is the duration of the buffer, or nothing
  when the promise is rejected: the handler ends there and the flags of its message are
  not looked at. \<open>audioContextRef.current.createBufferSource()\<close> reads the ref again and
  throws when it has been emptied meanwhile. The source is started at the value the
  timeline has now, and the timeline advances by the duration over the rate.
\<close>

definition onmessage_resume ::
  "AgentPersona \<Rightarrow> LiveServerMessage \<Rightarrow> real option \<Rightarrow> hook \<Rightarrow> completion" where
  "onmessage_resume agent message decoded s =
     (case decoded of
        None \<Rightarrow> Threw s
      | Some d \<Rightarrow>
          (case audioContextRef s of
             None \<Rightarrow> Threw s
           | Some c \<Rightarrow>
               (let source = \<lparr>startAt = nextStartTimeRef s, bufferDuration = d,
                               playbackRate = sourceRate agent,
                               detune = sourceDetune agent\<rparr>;
                    s2 = s\<lparr>started := started s @ [source],
                           nextStartTimeRef :=
                             nextStartTimeRef s + d / advanceRate agent\<rparr>
                in Returned (onmessage_flags message s2))))"

text \<open>The handler of one message with nothing else handled while its payload is decoded.\<close>

definition onmessage ::
  "AgentPersona \<Rightarrow> LiveServerMessage \<Rightarrow> real \<Rightarrow> real option \<Rightarrow> hook \<Rightarrow> completion" where
  "onmessage agent message now decoded s =
     (case onmessage_begin agent message now s of
        Done c \<Rightarrow> c
      | Awaiting s1 \<Rightarrow> onmessage_resume agent message decoded s1)"

subsection \<open>Teardown\<close>

text \<open>
  \<open>AudioContext.close()\<close> returns a promise. On a context that is already closed the
  promise is rejected with InvalidStateError; nothing is thrown at the caller. A promise
  is pending until it is fulfilled or rejected.
\<close>

datatype promise_state = Pending | Fulfilled | Rejected

definition AudioContext_close :: "nat \<Rightarrow> hook \<Rightarrow> promise_state \<times> hook" where
  "AudioContext_close c s =
     (if c \<in> set (openContexts s)
      then (Fulfilled, s\<lparr>openContexts := removeAll c (openContexts s)\<rparr>)
      else (Rejected, s))"

text \<open>
  The seven guarded blocks of \<open>cleanup\<close>, in the order of the source. A ref holding an
  object is truthy; the timer ref holds a number, which is truthy when it is not zero.
  The promise returned by \<open>close()\<close> is dropped.
\<close>

definition release_processor :: "hook \<Rightarrow> hook" where
  "release_processor s =
     (case processorRef s of None \<Rightarrow> s | Some p \<Rightarrow> s\<lparr>processorRef := None\<rparr>)"

definition release_source :: "hook \<Rightarrow> hook" where
  "release_source s =
     (case sourceRef s of None \<Rightarrow> s | Some n \<Rightarrow> s\<lparr>sourceRef := None\<rparr>)"

definition release_stream :: "hook \<Rightarrow> hook" where
  "release_stream s =
     (case streamRef s of None \<Rightarrow> s
      | Some m \<Rightarrow> s\<lparr>liveStreams := removeAll m (liveStreams s), streamRef := None\<rparr>)"

definition close_inputContext :: "hook \<Rightarrow> hook" where
  "close_inputContext s =
     (case inputContextRef s of None \<Rightarrow> s
      | Some c \<Rightarrow> (snd (AudioContext_close c s))\<lparr>inputContextRef := None\<rparr>)"

definition close_audioContext :: "hook \<Rightarrow> hook" where
  "close_audioContext s =
     (case audioContextRef s of None \<Rightarrow> s
      | Some c \<Rightarrow> (snd (AudioContext_close c s))\<lparr>audioContextRef := None\<rparr>)"

definition clear_session :: "hook \<Rightarrow> hook" where
  "clear_session s =
     (case sessionRef s of None \<Rightarrow> s | Some h \<Rightarrow> s\<lparr>sessionRef := None\<rparr>)"

definition clear_volumeInterval :: "hook \<Rightarrow> hook" where
  "clear_volumeInterval s =
     (case volumeIntervalRef s of None \<Rightarrow> s
      | Some t \<Rightarrow> (if t = 0 then s
                  else s\<lparr>timers := removeAll t (timers s), volumeIntervalRef := None\<rparr>))"

definition reset_flags :: "hook \<Rightarrow> hook" where
  "reset_flags s =
     s\<lparr>isConnected := False, isListening := False, isSpeaking := False,
       volumeLevels := zeroLevels\<rparr>"

definition cleanup :: "hook \<Rightarrow> completion" where
  "cleanup s =
     Returned (reset_flags (clear_volumeInterval (clear_session (close_audioContext
       (close_inputContext (release_stream (release_source (release_processor s))))))))"

subsection \<open>connect\<close>

text \<open>
  What the browser and the client library answer during one call of \<open>connect\<close>: whether
  each \<open>new AudioContext\<close> succeeds, whether \<open>navigator.mediaDevices.getUserMedia\<close> can be
  called at all, whether the promise it returns is fulfilled with a stream (permission
  granted) or rejected, and whether \<open>new GoogleGenAI\<close> and \<open>ai.live.connect\<close> return.
\<close>

record ConnectEnv =
  outputContext_ok :: bool
  inputContext_ok :: bool
  getUserMedia_ok :: bool
  microphone_granted :: bool
  client_ok :: bool

text \<open>The catch block: \<open>setError("Failed to initialize"); cleanup();\<close>\<close>

definition connect_catch :: "hook \<Rightarrow> completion" where
  "connect_catch s = cleanup (s\<lparr>error := Some ''Failed to initialize''\<rparr>)"

text \<open>
  \<open>connect\<close> up to its \<open>await\<close>: it clears the error slot, creates the output context
  (24 kHz) and the input context (16 kHz), the two analysers, and asks for the
  microphone. It makes no test of the state it is called in.
\<close>

definition connect_begin :: "ConnectEnv \<Rightarrow> hook \<Rightarrow> progress" where
  "connect_begin env s =
     (let s0 = s\<lparr>error := None\<rparr> in
      if \<not> outputContext_ok env then Done (connect_catch s0)
      else
        let a = Suc (lastHandle s0);
            s1 = s0\<lparr>audioContextRef := Some a, openContexts := a # openContexts s0,
                    lastHandle := a\<rparr>
        in if \<not> inputContext_ok env then Done (connect_catch s1)
           else
             let b = Suc (lastHandle s1);
                 s2 = s1\<lparr>inputContextRef := Some b, openContexts := b # openContexts s1,
                         lastHandle := b\<rparr>;
                 oa = Suc (lastHandle s2);
                 ia = Suc oa;
                 s3 = s2\<lparr>outputAnalyserRef := Some oa, inputAnalyserRef := Some ia,
                         lastHandle := ia\<rparr>
             in if \<not> getUserMedia_ok env then Done (connect_catch s3)
                else Awaiting (s3\<lparr>pendingMic := Suc (pendingMic s3)\<rparr>))"

text \<open>
  \<open>connect\<close> from the point where the promise of \<open>getUserMedia\<close> is settled: the stream is
  stored, the transport is opened (its promise goes into \<open>sessionRef\<close>) and the 50 ms
  interval is started.
\<close>

definition connect_resume :: "ConnectEnv \<Rightarrow> hook \<Rightarrow> completion" where
  "connect_resume env s =
     (let s0 = s\<lparr>pendingMic := pendingMic s - 1\<rparr> in
      if \<not> microphone_granted env then connect_catch s0
      else
        let m = Suc (lastHandle s0);
            s1 = s0\<lparr>streamRef := Some m, liveStreams := m # liveStreams s0,
                    lastHandle := m\<rparr>
        in if \<not> client_ok env then connect_catch s1
           else
             let h = Suc (lastHandle s1);
                 s2 = s1\<lparr>sessionRef := Some h, transports := h # transports s1,
                         lastHandle := h\<rparr>;
                 t = Suc (lastHandle s2);
                 s3 = s2\<lparr>volumeIntervalRef := Some t, timers := t # timers s2,
                         lastHandle := t\<rparr>
             in Returned s3)"

text \<open>One call of \<open>connect\<close> with nothing else running while it awaits the microphone.\<close>

definition connect :: "ConnectEnv \<Rightarrow> hook \<Rightarrow> completion" where
  "connect env s =
     (case connect_begin env s of
        Done c \<Rightarrow> c
      | Awaiting s1 \<Rightarrow> connect_resume env s1)"

subsection \<open>Transport callbacks and the telemetry timer\<close>

definition onopen :: "hook \<Rightarrow> completion" where
  "onopen s =
     (let s1 = s\<lparr>isConnected := True, isListening := True\<rparr> in
      if inputContextRef s1 = None \<or> streamRef s1 = None then Returned s1
      else
        let src = Suc (lastHandle s1);
            proc = Suc src
        in Returned (s1\<lparr>sourceRef := Some src, processorRef := Some proc,
                        lastHandle := proc\<rparr>))"

definition onclose :: "hook \<Rightarrow> completion" where
  "onclose s = cleanup s"

definition onerror :: "hook \<Rightarrow> completion" where
  "onerror s = cleanup (s\<lparr>error := Some ''Connection Error''\<rparr>)"

text \<open>
  The interval callback. \<open>inputData\<close> and \<open>outputData\<close> are the bytes that
  \<open>getByteFrequencyData\<close> writes for the two analysers (frequencyBinCount of them);
  a level is their mean divided by 255, and 0 when the analyser ref is empty.
\<close>

definition level :: "nat list \<Rightarrow> real" where
  "level bytes = (real (sum_list bytes) / real (length bytes)) / 255"

definition volumeTick :: "nat list \<Rightarrow> nat list \<Rightarrow> hook \<Rightarrow> completion" where
  "volumeTick inputData outputData s =
     (let inputVol = (case inputAnalyserRef s of None \<Rightarrow> 0 | Some a \<Rightarrow> level inputData);
          outputVol = (case outputAnalyserRef s of None \<Rightarrow> 0 | Some a \<Rightarrow> level outputData)
      in Returned (s\<lparr>volumeLevels := \<lparr>input_level = inputVol, output_level = outputVol\<rparr>,
                      isSpeaking := (outputVol > 0.01)\<rparr>))"

subsection \<open>Histories\<close>

text \<open>
  Everything that can happen to the hook: the two calls it exports, the unmount effect,
  the settling of a pending microphone request, the four transport callbacks, the
  settling of a pending decode and the timer. A callback can only come from something
  that exists: a microphone answer needs a suspended \<open>connect\<close>, a transport callback needs
  a transport that was opened (the hook never closes one), a decode result needs a
  suspended message handler, a tick needs a running timer. A message that suspends its
  handler adds it to \<open>decoding\<close>; \<open>DecodeSettled i\<close> takes the \<open>i\<close>-th of them out and resumes it,
  so payloads may finish decoding in any order. An exception thrown by a handler ends
  the handler, not the page: the next event finds the state the handler left.
\<close>

datatype event =
    CallConnect ConnectEnv
  | MicSettled ConnectEnv
  | TransportOpen
  | TransportMessage AgentPersona LiveServerMessage real
  | DecodeSettled nat "real option"
  | TransportClose
  | TransportError
  | TimerTick nat "nat list" "nat list"
  | CallDisconnect
  | Unmount

fun step :: "event \<Rightarrow> hook \<Rightarrow> hook" where
  "step (CallConnect env) s =
     (case connect_begin env s of Done c \<Rightarrow> state_of c | Awaiting s1 \<Rightarrow> s1)"
| "step (MicSettled env) s =
     (if pendingMic s = 0 then s else state_of (connect_resume env s))"
| "step TransportOpen s = (if transports s = [] then s else state_of (onopen s))"
| "step (TransportMessage agent message now) s =
     (if transports s = [] then s
      else
        (case onmessage_begin agent message now s of
           Done c \<Rightarrow> state_of c
         | Awaiting s1 \<Rightarrow> s1\<lparr>decoding := decoding s1 @ [(agent, message)]\<rparr>))"
| "step (DecodeSettled i decoded) s =
     (if i < length (decoding s) then
        state_of (onmessage_resume (fst (decoding s ! i)) (snd (decoding s ! i)) decoded
          (s\<lparr>decoding := take i (decoding s) @ drop (Suc i) (decoding s)\<rparr>))
      else s)"
| "step TransportClose s = (if transports s = [] then s else state_of (onclose s))"
| "step TransportError s = (if transports s = [] then s else state_of (onerror s))"
| "step (TimerTick t inputData outputData) s =
     (if t \<in> set (timers s) then state_of (volumeTick inputData outputData s) else s)"
| "step CallDisconnect s = state_of (cleanup s)"
| "step Unmount s = state_of (cleanup s)"

fun run :: "event list \<Rightarrow> hook \<Rightarrow> hook" where
  "run [] s = s"
| "run (e # es) s = run es (step e s)"

subsection \<open>Histories of the playback scheduler\<close>

text \<open>The time a started source plays for: the duration of its buffer over its rate.\<close>

definition playLength :: "BufferSource \<Rightarrow> real" where
  "playLength x = bufferDuration x / playbackRate x"

text \<open>
  An event during which no interruption is handled and nothing negative is scheduled,
  judged in the state it meets. A message that does not suspend has its flags looked at
  on arrival: it carries no interruption flag. A decode that settles with a buffer
  resumes a handler whose message carries no interruption flag; the buffer has a
  duration (not negative) and the speed of the persona is not negative (the voice
  presets document it as 0.5 to 1.5). Every other event qualifies.
\<close>

fun calm_event :: "event \<Rightarrow> hook \<Rightarrow> bool" where
  "calm_event (TransportMessage agent message now) s =
     (truthy_string (base64Audio message) \<and> audioContextRef s \<noteq> None \<or>
      \<not> is_interrupted message)"
| "calm_event (DecodeSettled i decoded) s =
     (case decoded of
        None \<Rightarrow> True
      | Some d \<Rightarrow>
          i < length (decoding s) \<longrightarrow>
            0 \<le> d \<and> \<not> is_interrupted (snd (decoding s ! i)) \<and>
            (case voiceSettings (fst (decoding s ! i)) of
               None \<Rightarrow> True
             | Some vs \<Rightarrow> 0 \<le> speed vs))"
| "calm_event e s = True"

fun calm :: "event list \<Rightarrow> hook \<Rightarrow> bool" where
  "calm [] s = True"
| "calm (e # es) s = (calm_event e s \<and> calm es (step e s))"

text \<open>
  A message arrives in time when the clock its handler reads is not beyond the value
  the timeline has at that moment: the audio scheduled so far has not run out. A history
  is punctual past \<open>n\<close> sources when every message that arrives after more than \<open>n\<close>
  sources have been started arrives in time; with \<open>n\<close> the number of sources started
  before the history, this leaves free every arrival before the first start of the
  history and constrains every arrival after it.
\<close>

fun in_time :: "event \<Rightarrow> hook \<Rightarrow> bool" where
  "in_time (TransportMessage agent message now) s = (now \<le> nextStartTimeRef s)"
| "in_time e s = True"

fun punctual :: "nat \<Rightarrow> event list \<Rightarrow> hook \<Rightarrow> bool" where
  "punctual n [] s = True"
| "punctual n (e # es) s =
     ((length (started s) \<le> n \<or> in_time e s) \<and> punctual n es (step e s))"

text \<open>
  For the proofs: a list of sources that begins at or after \<open>n\<close>, in which each source
  begins at or after the end of the one before, and which ends at or before \<open>n'\<close>; and
  the same with every "at or after" replaced by "at".
\<close>

fun follows :: "real \<Rightarrow> BufferSource list \<Rightarrow> real \<Rightarrow> bool" where
  "follows n [] n' = (n \<le> n')"
| "follows n (x # xs) n' =
     (n \<le> startAt x \<and> 0 \<le> playLength x \<and> follows (startAt x + playLength x) xs n')"

fun abuts :: "real \<Rightarrow> BufferSource list \<Rightarrow> real \<Rightarrow> bool" where
  "abuts n [] n' = (n' = n)"
| "abuts n (x # xs) n' = (startAt x = n \<and> abuts (n + playLength x) xs n')"


fun is_CallConnect :: "event \<Rightarrow> bool" where
  "is_CallConnect (CallConnect env) = True"
| "is_CallConnect e = False"

subsection \<open>One session at a time\<close>

text \<open>
  Every context, stream and timer that is live is the one a ref names.
\<close>

definition all_named :: "hook \<Rightarrow> bool" where
  "all_named s =
     (set (openContexts s) \<subseteq> set_option (audioContextRef s) \<union> set_option (inputContextRef s) \<and>
      set (liveStreams s) \<subseteq> set_option (streamRef s) \<and>
      set (timers s) \<subseteq> set_option (volumeIntervalRef s))"

text \<open>Nothing is held and no call of \<open>connect\<close> is waiting for the microphone.\<close>

definition idle :: "hook \<Rightarrow> bool" where
  "idle s =
     (audioContextRef s = None \<and> inputContextRef s = None \<and> streamRef s = None \<and>
      volumeIntervalRef s = None \<and> pendingMic s = 0)"

text \<open>A history in which \<open>connect\<close> is only called on an idle hook.\<close>

fun one_at_a_time :: "event list \<Rightarrow> hook \<Rightarrow> bool" where
  "one_at_a_time [] s = True"
| "one_at_a_time (e # es) s =
     ((is_CallConnect e \<longrightarrow> idle s) \<and> one_at_a_time es (step e s))"

text \<open>
  For the proofs: what holds along such a history. While a call of \<open>connect\<close> waits for
  the microphone, no stream and no timer is held yet.
\<close>

definition settled_or_waiting :: "hook \<Rightarrow> bool" where
  "settled_or_waiting s =
     (all_named s \<and> volumeIntervalRef s \<noteq> Some 0 \<and>
      (pendingMic s = 0 \<or>
       pendingMic s = 1 \<and> streamRef s = None \<and> volumeIntervalRef s = None))"

subsection \<open>The capture callback\<close>

text \<open>
  \<open>onaudioprocess\<close> encodes the frame at once and registers a reaction on the promise of
  the session: \<open>sessionPromise.then(session => session.sendRealtimeInput({ media: pcmBlob }))\<close>.
  What \<open>sendRealtimeInput\<close> returns is not looked at. A reaction registered on a fulfilled
  promise runs before any other event is handled; reactions registered while the promise
  is pending run in the order of their registration when it is fulfilled, and are
  dropped when it is rejected. The record holds the promise, the blobs of the reactions
  that wait for it, and the blobs handed to the transport, oldest first.
  \<open>createPcmBlob\<close> is imported from utils/audio and is a parameter here.
\<close>

record 'b uplink =
  sessionPromise :: promise_state
  reactions :: "'b list"
  wire :: "'b list"

definition uplink_initial :: "'b uplink" where
  "uplink_initial = \<lparr>sessionPromise = Pending, reactions = [], wire = []\<rparr>"

definition onaudioprocess :: "('f \<Rightarrow> 'b) \<Rightarrow> 'f \<Rightarrow> 'b uplink \<Rightarrow> 'b uplink" where
  "onaudioprocess createBlob inputData u =
     (let pcmBlob = createBlob inputData in
      case sessionPromise u of
        Pending \<Rightarrow> u\<lparr>reactions := reactions u @ [pcmBlob]\<rparr>
      | Fulfilled \<Rightarrow> u\<lparr>wire := wire u @ [pcmBlob]\<rparr>
      | Rejected \<Rightarrow> u)"

definition session_fulfilled :: "'b uplink \<Rightarrow> 'b uplink" where
  "session_fulfilled u =
     (case sessionPromise u of
        Pending \<Rightarrow> u\<lparr>sessionPromise := Fulfilled, wire := wire u @ reactions u, reactions := []\<rparr>
      | Fulfilled \<Rightarrow> u
      | Rejected \<Rightarrow> u)"

definition session_rejected :: "'b uplink \<Rightarrow> 'b uplink" where
  "session_rejected u =
     (case sessionPromise u of
        Pending \<Rightarrow> u\<lparr>sessionPromise := Rejected, reactions := []\<rparr>
      | Fulfilled \<Rightarrow> u
      | Rejected \<Rightarrow> u)"

datatype 'f capture_event = Frame 'f | SessionFulfilled | SessionRejected

fun uplink_step :: "('f \<Rightarrow> 'b) \<Rightarrow> 'f capture_event \<Rightarrow> 'b uplink \<Rightarrow> 'b uplink" where
  "uplink_step createBlob (Frame inputData) u = onaudioprocess createBlob inputData u"
| "uplink_step createBlob SessionFulfilled u = session_fulfilled u"
| "uplink_step createBlob SessionRejected u = session_rejected u"

fun uplink_run :: "('f \<Rightarrow> 'b) \<Rightarrow> 'f capture_event list \<Rightarrow> 'b uplink \<Rightarrow> 'b uplink" where
  "uplink_run createBlob [] u = u"
| "uplink_run createBlob (e # es) u = uplink_run createBlob es (uplink_step createBlob e u)"

text \<open>The frames of a history, in the order of their capture.\<close>

fun captured :: "'f capture_event list \<Rightarrow> 'f list" where
  "captured [] = []"
| "captured (Frame inputData # es) = inputData # captured es"
| "captured (e # es) = captured es"

text \<open>For the proofs: the state of the uplink that goes with a list of captured frames.\<close>

definition in_order :: "('f \<Rightarrow> 'b) \<Rightarrow> 'f list \<Rightarrow> 'b uplink \<Rightarrow> bool" where
  "in_order createBlob frames u =
     (case sessionPromise u of
        Pending \<Rightarrow> wire u = [] \<and> reactions u = map createBlob frames
      | Fulfilled \<Rightarrow> wire u = map createBlob frames \<and> reactions u = []
      | Rejected \<Rightarrow> wire u = [] \<and> reactions u = [])"

section \<open>PCM framing (utils/audio)\<close>

text \<open>
  Modelled from the spec: the quantizer and the byte layout behind \<open>createPcmBlob\<close> and
  \<open>decodeAudioData\<close> of utils/audio, which the hook imports and whose text is not among
  the sources. The specification says:
  encode quantizes each floating-point sample in [-1,1] to a signed 16-bit integer,
  clamped to the representable range, and base64-encodes the byte sequence, tagged with
  the input rate and one channel; decode takes a base64 payload of signed 16-bit
  little-endian samples and converts it to floating-point samples in [-1,1]. The
  quantization step is the 1/32768 of the round-trip property, which is also the factor
  by which the players of the story and podcast screens divide. The specification does
  not say how a scaled sample becomes an integer, so the rounding is a parameter.
\<close>

datatype rounding = Truncate | Floor | Nearest

definition to_integer :: "rounding \<Rightarrow> real \<Rightarrow> int" where
  "to_integer r y =
     (case r of
        Truncate \<Rightarrow> (if y < 0 then \<lceil>y\<rceil> else \<lfloor>y\<rfloor>)
      | Floor \<Rightarrow> \<lfloor>y\<rfloor>
      | Nearest \<Rightarrow> round y)"

definition quantize :: "rounding \<Rightarrow> real \<Rightarrow> int" where
  "quantize r x = max (- 32768) (min 32767 (to_integer r (x * 32768)))"

definition dequantize :: "int \<Rightarrow> real" where
  "dequantize q = real_of_int q / 32768"

text \<open>A signed 16-bit integer as two bytes, low byte first, and back.\<close>

definition int16_bytes :: "int \<Rightarrow> nat list" where
  "int16_bytes q = (let u = nat (q mod 65536) in [u mod 256, u div 256])"

definition bytes_int16 :: "nat \<Rightarrow> nat \<Rightarrow> int" where
  "bytes_int16 lo hi =
     (let u = int lo + 256 * int hi in if 32768 \<le> u then u - 65536 else u)"

fun pcm_bytes :: "int list \<Rightarrow> nat list" where
  "pcm_bytes [] = []"
| "pcm_bytes (q # qs) = int16_bytes q @ pcm_bytes qs"

text \<open>A byte sequence of odd length is not a sequence of 16-bit samples.\<close>

fun bytes_pcm :: "nat list \<Rightarrow> int list option" where
  "bytes_pcm [] = Some []"
| "bytes_pcm [lo] = None"
| "bytes_pcm (lo # hi # rest) =
     (case bytes_pcm rest of None \<Rightarrow> None | Some qs \<Rightarrow> Some (bytes_int16 lo hi # qs))"

text \<open>Base64 with the standard alphabet and padding.\<close>

definition alphabet :: string where
  "alphabet = ''ABCDEFGHIJKLMNOPQRSTUVWXYZabcdefghijklmnopqrstuvwxyz0123456789+/''"

definition b64char :: "nat \<Rightarrow> char" where
  "b64char i = alphabet ! i"

definition b64index :: "char \<Rightarrow> nat option" where
  "b64index c = map_of (zip alphabet [0 ..< length alphabet]) c"

fun b64encode :: "nat list \<Rightarrow> string" where
  "b64encode [] = []"
| "b64encode [a] = [b64char (a div 4), b64char ((a mod 4) * 16), CHR ''='', CHR ''='']"
| "b64encode [a, b] =
     [b64char (a div 4), b64char ((a mod 4) * 16 + b div 16), b64char ((b mod 16) * 4),
      CHR ''='']"
| "b64encode (a # b # c # rest) =
     [b64char (a div 4), b64char ((a mod 4) * 16 + b div 16),
      b64char ((b mod 16) * 4 + c div 64), b64char (c mod 64)] @ b64encode rest"

fun b64decode :: "string \<Rightarrow> nat list option" where
  "b64decode [] = Some []"
| "b64decode (c1 # c2 # c3 # c4 # rest) =
     (case (b64index c1, b64index c2) of
        (Some i, Some j) \<Rightarrow>
          (if rest = [] \<and> c3 = CHR ''='' \<and> c4 = CHR ''='' then Some [i * 4 + j div 16]
           else
             (case b64index c3 of
                None \<Rightarrow> None
              | Some k \<Rightarrow>
                  (if rest = [] \<and> c4 = CHR ''=''
                   then Some [i * 4 + j div 16, (j mod 16) * 16 + k div 4]
                   else
                     (case (b64index c4, b64decode rest) of
                        (Some l, Some bytes) \<Rightarrow>
                          Some ([i * 4 + j div 16, (j mod 16) * 16 + k div 4,
                                 (k mod 4) * 64 + l] @ bytes)
                      | _ \<Rightarrow> None))))
      | _ \<Rightarrow> None)"
| "b64decode cs = None"

record PcmBlob =
  blob_data :: string
  mimeType :: string

record AudioBuffer =
  channelData :: "real list"
  sampleRate :: nat
  numberOfChannels :: nat

text \<open>
  Modelled from the spec: \<open>createPcmBlob\<close> of utils/audio (the module is missing from the
  sources). Each sample is quantized to a clamped signed 16-bit integer, the integers
  are written low byte first, the bytes are base64-encoded, and the blob is tagged with
  the input rate of 16 kHz.
\<close>

definition createPcmBlob :: "rounding \<Rightarrow> real list \<Rightarrow> PcmBlob" where
  "createPcmBlob r samples =
     \<lparr>blob_data = b64encode (pcm_bytes (map (quantize r) samples)),
      mimeType = ''audio/pcm;rate=16000''\<rparr>"

text \<open>
  Modelled from the spec: \<open>decodeAudioData\<close> of utils/audio (the module is missing from
  the sources). The base64 payload is read as signed 16-bit little-endian samples, which
  become floating-point samples in [-1,1] in a buffer of the rate and channel count
  asked for. A payload that is not base64, or that holds an odd number of bytes, is
  rejected.
\<close>

definition decodeAudioData :: "string \<Rightarrow> nat \<Rightarrow> nat \<Rightarrow> AudioBuffer option" where
  "decodeAudioData payload rate channels =
     (case b64decode payload of
        None \<Rightarrow> None
      | Some bytes \<Rightarrow>
          (case bytes_pcm bytes of
             None \<Rightarrow> None
           | Some qs \<Rightarrow>
               Some \<lparr>channelData = map dequantize qs, sampleRate = rate,
                     numberOfChannels = channels\<rparr>))"

section \<open>Project storage (utils/db)\<close>

record CastMember =
  cast_id :: string
  cast_name :: string
  voiceId :: string

text \<open>
  Project of the type declarations. \<open>createdAt\<close> and \<open>updatedAt\<close> are values of
  \<open>Date.now()\<close>: whole milliseconds.
\<close>

record Project =
  project_id :: string
  userId :: string
  project_name :: string
  createdAt :: int
  updatedAt :: int
  project_agent :: AgentPersona
  project_text :: string
  audioData :: "int list option"
  project_duration :: real
  voiceVolume :: real
  isPodcast :: "bool option"
  guestAgent :: "AgentPersona option"
  cast :: "CastMember list option"

text \<open>
  \<open>index.getAll(userId)\<close> on the index \<open>userId\<close> of the object store: the records whose
  \<open>userId\<close> is the key asked for, in the order of the store.
\<close>

definition index_getAll :: "string \<Rightarrow> Project list \<Rightarrow> Project list" where
  "index_getAll key records = filter (\<lambda>p. userId p = key) records"

text \<open>
  \<open>projects.sort((a, b) => b.updatedAt - a.updatedAt)\<close>. \<open>Array.prototype.sort\<close> is a
  stable sort by the comparator: \<open>a\<close> comes before \<open>b\<close> when the comparator is negative,
  and equal elements keep their order. The model is the insertion sort with that
  behaviour.
\<close>

definition compareUpdatedAt :: "Project \<Rightarrow> Project \<Rightarrow> int" where
  "compareUpdatedAt a b = updatedAt b - updatedAt a"

fun insert_sorted :: "('a \<Rightarrow> 'a \<Rightarrow> int) \<Rightarrow> 'a \<Rightarrow> 'a list \<Rightarrow> 'a list" where
  "insert_sorted cmp x [] = [x]"
| "insert_sorted cmp x (y # ys) =
     (if cmp x y \<le> 0 then x # y # ys else y # insert_sorted cmp x ys)"

fun array_sort :: "('a \<Rightarrow> 'a \<Rightarrow> int) \<Rightarrow> 'a list \<Rightarrow> 'a list" where
  "array_sort cmp [] = []"
| "array_sort cmp (x # xs) = insert_sorted cmp x (array_sort cmp xs)"

definition getProjectsByUser :: "Project list \<Rightarrow> string \<Rightarrow> Project list" where
  "getProjectsByUser records uid = array_sort compareUpdatedAt (index_getAll uid records)"

section \<open>Concrete sessions and data\<close>

definition demo_env :: ConnectEnv where
  "demo_env = \<lparr>outputContext_ok = True, inputContext_ok = True, getUserMedia_ok = True,
     microphone_granted = True, client_ok = True\<rparr>"

definition demo_agent :: AgentPersona where
  "demo_agent = \<lparr>agent_id = ''a1'', agent_name = ''Nova'', voice = ''Kore'',
     voiceSettings = Some \<lparr>speed = 3/2, pitch = 100\<rparr>,
     systemInstruction = ''Be brief.'', avatarColor = ''from-cyan-500''\<rparr>"

definition demo_message :: "string option \<Rightarrow> bool option \<Rightarrow> bool option \<Rightarrow> LiveServerMessage" where
  "demo_message payload intr tc =
     \<lparr>serverContent = Some \<lparr>modelTurn = Some \<lparr>parts = Some [\<lparr>inlineData = Some \<lparr>data = payload\<rparr>\<rparr>]\<rparr>,
        interrupted = intr, turnComplete = tc\<rparr>\<rparr>"

definition demo_open :: hook where
  "demo_open = run [CallConnect demo_env, MicSettled demo_env, TransportOpen] initial"

definition demo_audio :: LiveServerMessage where
  "demo_audio = demo_message (Some ''AAAA'') None None"

definition demo_interruption :: LiveServerMessage where
  "demo_interruption = demo_message None (Some True) None"

definition demo_turnComplete :: LiveServerMessage where
  "demo_turnComplete = demo_message None None (Some True)"

text \<open>
  Two chunks of 0.3 s arrive at clock 0 and 0.1 before either is decoded; then both
  decodes settle.
\<close>

definition demo_arrived :: hook where
  "demo_arrived =
     run [TransportMessage demo_agent demo_audio 0,
          TransportMessage demo_agent demo_audio (1/10)] demo_open"

definition demo_settle :: "event list" where
  "demo_settle = [DecodeSettled 0 (Some (3/10)), DecodeSettled 0 (Some (3/10))]"

text \<open>
  The two chunks of 0.3 s from their arrival to their start: both arrive, at clock 0 and
  at clock 0.1, before either is decoded.
\<close>

definition demo_two_chunks :: "event list" where
  "demo_two_chunks =
     [TransportMessage demo_agent demo_audio 0, TransportMessage demo_agent demo_audio (1/10),
      DecodeSettled 0 (Some (3/10)), DecodeSettled 0 (Some (3/10))]"

definition demo_backlog :: hook where
  "demo_backlog = run demo_settle demo_arrived"



text \<open>An audio message that also carries the interruption flag.\<close>

definition demo_flagged_audio :: LiveServerMessage where
  "demo_flagged_audio = demo_message (Some ''AAAA'') (Some True) None"




definition demo_denied :: ConnectEnv where
  "demo_denied = demo_env\<lparr>microphone_granted := False\<rparr>"


definition demo_closed :: hook where
  "demo_closed = run [CallDisconnect] demo_open"

definition demo_project :: "string \<Rightarrow> string \<Rightarrow> int \<Rightarrow> Project" where
  "demo_project pid uid updated =
     \<lparr>project_id = pid, userId = uid, project_name = ''Untitled Project'',
      createdAt = 1700000000000, updatedAt = updated, project_agent = demo_agent,
      project_text = ''Once upon a time'', audioData = None, project_duration = 0,
      voiceVolume = 1, isPodcast = None, guestAgent = None, cast = None\<rparr>"

definition demo_store :: "Project list" where
  "demo_store =
     [demo_project ''p1'' ''alice'' 1700000000100,
      demo_project ''p2'' ''bob'' 1700000000300,
      demo_project ''p3'' ''alice'' 1700000000200]"

definition demo_frames :: "nat capture_event list" where
  "demo_frames = [Frame 1, Frame 2, SessionFulfilled, Frame 3]"

definition demo_samples :: "real list" where
  "demo_samples = [0, 1/2, - 1, 1]"

section \<open>What each handler changes and what it leaves alone\<close>


lemmas cleanup_parts = release_processor_def release_source_def release_stream_def
  close_inputContext_def close_audioContext_def clear_session_def clear_volumeInterval_def
  reset_flags_def AudioContext_close_def

lemma cleanup_Returned: "cleanup s = Returned (state_of (cleanup s))"
  by (simp add: cleanup_def)

lemma cleanup_flags:
  "isConnected (state_of (cleanup s)) = False"
  "isListening (state_of (cleanup s)) = False"
  "isSpeaking (state_of (cleanup s)) = False"
  "volumeLevels (state_of (cleanup s)) = zeroLevels"
  by (simp_all add: cleanup_def reset_flags_def)

lemma cleanup_refs:
  "processorRef (state_of (cleanup s)) = None"
  "sourceRef (state_of (cleanup s)) = None"
  "streamRef (state_of (cleanup s)) = None"
  "inputContextRef (state_of (cleanup s)) = None"
  "audioContextRef (state_of (cleanup s)) = None"
  "sessionRef (state_of (cleanup s)) = None"
  "volumeIntervalRef (state_of (cleanup s)) =
     (if volumeIntervalRef s = Some 0 then Some 0 else None)"
  by (simp_all add: cleanup_def cleanup_parts split: option.splits)

lemma cleanup_frame:
  "error (state_of (cleanup s)) = error s"
  "nextStartTimeRef (state_of (cleanup s)) = nextStartTimeRef s"
  "inputAnalyserRef (state_of (cleanup s)) = inputAnalyserRef s"
  "outputAnalyserRef (state_of (cleanup s)) = outputAnalyserRef s"
  "lastHandle (state_of (cleanup s)) = lastHandle s"
  "transports (state_of (cleanup s)) = transports s"
  "pendingMic (state_of (cleanup s)) = pendingMic s"
  "decoding (state_of (cleanup s)) = decoding s"
  "started (state_of (cleanup s)) = started s"
  by (simp_all add: cleanup_def cleanup_parts split: option.splits)

lemma cleanup_browser:
  "liveStreams (state_of (cleanup s)) =
     (case streamRef s of None \<Rightarrow> liveStreams s | Some m \<Rightarrow> removeAll m (liveStreams s))"
  "set (openContexts (state_of (cleanup s))) =
     set (openContexts s) - set_option (inputContextRef s) - set_option (audioContextRef s)"
  "timers (state_of (cleanup s)) =
     (case volumeIntervalRef s of None \<Rightarrow> timers s
      | Some t \<Rightarrow> if t = 0 then timers s else removeAll t (timers s))"
  by (auto simp add: cleanup_def cleanup_parts split: option.splits)


lemma connect_catch_fields:
  "error (state_of (connect_catch s)) = Some ''Failed to initialize''"
  "nextStartTimeRef (state_of (connect_catch s)) = nextStartTimeRef s"
  "started (state_of (connect_catch s)) = started s"
  "decoding (state_of (connect_catch s)) = decoding s"
  "volumeIntervalRef (state_of (connect_catch s)) =
     (if volumeIntervalRef s = Some 0 then Some 0 else None)"
  by (simp_all add: connect_catch_def cleanup_frame cleanup_refs)

lemma connect_begin_nextStart:
  "nextStartTimeRef (case connect_begin env s of Done c \<Rightarrow> state_of c | Awaiting s1 \<Rightarrow> s1)
     = nextStartTimeRef s"
  "started (case connect_begin env s of Done c \<Rightarrow> state_of c | Awaiting s1 \<Rightarrow> s1)
     = started s"
  "decoding (case connect_begin env s of Done c \<Rightarrow> state_of c | Awaiting s1 \<Rightarrow> s1)
     = decoding s"
  by (simp_all add: connect_begin_def Let_def connect_catch_fields)

lemma connect_begin_timer:
  "volumeIntervalRef s \<noteq> Some 0 \<Longrightarrow>
   volumeIntervalRef (case connect_begin env s of Done c \<Rightarrow> state_of c | Awaiting s1 \<Rightarrow> s1)
     \<noteq> Some 0"
  by (simp add: connect_begin_def Let_def connect_catch_fields)

lemma connect_begin_error:
  "error (case connect_begin env s of Done c \<Rightarrow> state_of c | Awaiting s1 \<Rightarrow> s1) =
     (if outputContext_ok env \<and> inputContext_ok env \<and> getUserMedia_ok env then None
      else Some ''Failed to initialize'')"
  by (simp add: connect_begin_def Let_def connect_catch_fields)

lemma connect_resume_nextStart:
  "nextStartTimeRef (state_of (connect_resume env s)) = nextStartTimeRef s"
  "started (state_of (connect_resume env s)) = started s"
  "decoding (state_of (connect_resume env s)) = decoding s"
  by (simp_all add: connect_resume_def Let_def connect_catch_fields)

lemma connect_resume_timer:
  "volumeIntervalRef s \<noteq> Some 0 \<Longrightarrow>
   volumeIntervalRef (state_of (connect_resume env s)) \<noteq> Some 0"
  by (simp add: connect_resume_def Let_def connect_catch_fields)

lemma connect_resume_error:
  "error (state_of (connect_resume env s)) =
     (if microphone_granted env \<and> client_ok env then error s
      else Some ''Failed to initialize'')"
  by (simp add: connect_resume_def Let_def connect_catch_fields)

lemma onopen_frame:
  "nextStartTimeRef (state_of (onopen s)) = nextStartTimeRef s"
  "started (state_of (onopen s)) = started s"
  "decoding (state_of (onopen s)) = decoding s"
  "volumeIntervalRef (state_of (onopen s)) = volumeIntervalRef s"
  "error (state_of (onopen s)) = error s"
  by (simp_all add: onopen_def Let_def)

lemma volumeTick_frame:
  "nextStartTimeRef (state_of (volumeTick i out s)) = nextStartTimeRef s"
  "started (state_of (volumeTick i out s)) = started s"
  "decoding (state_of (volumeTick i out s)) = decoding s"
  "volumeIntervalRef (state_of (volumeTick i out s)) = volumeIntervalRef s"
  "error (state_of (volumeTick i out s)) = error s"
  by (simp_all add: volumeTick_def Let_def)

lemma onmessage_flags_frame:
  "audioContextRef (onmessage_flags m s) = audioContextRef s"
  "started (onmessage_flags m s) = started s"
  "decoding (onmessage_flags m s) = decoding s"
  "volumeIntervalRef (onmessage_flags m s) = volumeIntervalRef s"
  "error (onmessage_flags m s) = error s"
  "nextStartTimeRef (onmessage_flags m s) =
     (if is_interrupted m then 0 else nextStartTimeRef s)"
  by (simp_all add: onmessage_flags_def Let_def)

text \<open>The state a message leaves when its handler suspends or returns.\<close>

lemma onmessage_begin_frame:
  "volumeIntervalRef (case onmessage_begin a m now s of Done c \<Rightarrow> state_of c | Awaiting s1 \<Rightarrow> s1)
     = volumeIntervalRef s"
  "error (case onmessage_begin a m now s of Done c \<Rightarrow> state_of c | Awaiting s1 \<Rightarrow> s1) = error s"
  "audioContextRef (case onmessage_begin a m now s of Done c \<Rightarrow> state_of c | Awaiting s1 \<Rightarrow> s1)
     = audioContextRef s"
  "started (case onmessage_begin a m now s of Done c \<Rightarrow> state_of c | Awaiting s1 \<Rightarrow> s1)
     = started s"
  "decoding (case onmessage_begin a m now s of Done c \<Rightarrow> state_of c | Awaiting s1 \<Rightarrow> s1)
     = decoding s"
  by (simp_all add: onmessage_begin_def onmessage_flags_frame)

lemma onmessage_resume_frame:
  "volumeIntervalRef (state_of (onmessage_resume a m dec s)) = volumeIntervalRef s"
  "error (state_of (onmessage_resume a m dec s)) = error s"
  "audioContextRef (state_of (onmessage_resume a m dec s)) = audioContextRef s"
  "decoding (state_of (onmessage_resume a m dec s)) = decoding s"
  by (simp_all add: onmessage_resume_def onmessage_flags_frame Let_def split: option.splits)

lemma onmessage_frame:
  "volumeIntervalRef (state_of (onmessage a m now dec s)) = volumeIntervalRef s"
  "error (state_of (onmessage a m now dec s)) = error s"
  "audioContextRef (state_of (onmessage a m now dec s)) = audioContextRef s"
  by (simp_all add: onmessage_def onmessage_begin_def onmessage_resume_def
      onmessage_flags_frame Let_def split: option.splits)


lemma step_message_frame:
  "volumeIntervalRef (step (TransportMessage a m now) s) = volumeIntervalRef s"
  "error (step (TransportMessage a m now) s) = error s"
  "audioContextRef (step (TransportMessage a m now) s) = audioContextRef s"
  "started (step (TransportMessage a m now) s) = started s"
  by (simp_all add: onmessage_begin_def onmessage_flags_frame)

lemma step_decode_frame:
  "volumeIntervalRef (step (DecodeSettled i dec) s) = volumeIntervalRef s"
  "error (step (DecodeSettled i dec) s) = error s"
  "audioContextRef (step (DecodeSettled i dec) s) = audioContextRef s"
  by (simp_all add: onmessage_resume_frame)

lemma onerror_fields:
  "error (state_of (onerror s)) = Some ''Connection Error''"
  "nextStartTimeRef (state_of (onerror s)) = nextStartTimeRef s"
  "volumeIntervalRef (state_of (onerror s)) =
     (if volumeIntervalRef s = Some 0 then Some 0 else None)"
  by (simp_all add: onerror_def cleanup_frame cleanup_refs)

lemma step_timer_positive:
  "volumeIntervalRef s \<noteq> Some 0 \<Longrightarrow> volumeIntervalRef (step e s) \<noteq> Some 0"
  by (cases e)
    (simp_all add: connect_begin_timer connect_resume_timer onopen_frame volumeTick_frame
      step_message_frame step_decode_frame onerror_fields onclose_def cleanup_refs
      del: step.simps(4,5))

lemma run_timer_positive:
  "volumeIntervalRef s \<noteq> Some 0 \<Longrightarrow> volumeIntervalRef (run es s) \<noteq> Some 0"
  by (induction es arbitrary: s) (simp_all add: step_timer_positive)

lemma initial_timer: "volumeIntervalRef initial \<noteq> Some 0"
  by (simp add: initial_def)



lemma step_error_stays:
  "\<not> is_CallConnect e \<Longrightarrow> error s \<noteq> None \<Longrightarrow> error (step e s) \<noteq> None"
  by (cases e)
    (simp_all add: connect_resume_error onopen_frame volumeTick_frame step_message_frame
      step_decode_frame onerror_fields onclose_def cleanup_frame del: step.simps(4,5))

section \<open>The concrete sessions, evaluated\<close>

lemmas message_reads = demo_message_def demo_audio_def demo_interruption_def
  demo_turnComplete_def demo_flagged_audio_def base64Audio_def truthy_string_def
  truthy_flag_def is_interrupted_def is_turnComplete_def

lemmas handler_steps = onmessage_begin_def onmessage_resume_def onmessage_flags_def
  sourceRate_def sourceDetune_def advanceRate_def demo_agent_def Let_def

lemma demo_open_eval:
  "demo_open = \<lparr>isConnected = True, isSpeaking = False, isListening = True,
     volumeLevels = zeroLevels, error = None,
     audioContextRef = Some 1, inputContextRef = Some 2, nextStartTimeRef = 0,
     sessionRef = Some 6, streamRef = Some 5, processorRef = Some 9, sourceRef = Some 8,
     inputAnalyserRef = Some 4, outputAnalyserRef = Some 3, volumeIntervalRef = Some 7,
     lastHandle = 9, openContexts = [2, 1], liveStreams = [5], transports = [6], timers = [7],
     pendingMic = 0, decoding = [], started = []\<rparr>"
  by (simp add: demo_open_def demo_env_def initial_def connect_begin_def connect_resume_def
      onopen_def Let_def eval_nat_numeral)

lemma demo_arrived_eval:
  "demo_arrived = \<lparr>isConnected = True, isSpeaking = True, isListening = True,
     volumeLevels = zeroLevels, error = None,
     audioContextRef = Some 1, inputContextRef = Some 2, nextStartTimeRef = 1/10,
     sessionRef = Some 6, streamRef = Some 5, processorRef = Some 9, sourceRef = Some 8,
     inputAnalyserRef = Some 4, outputAnalyserRef = Some 3, volumeIntervalRef = Some 7,
     lastHandle = 9, openContexts = [2, 1], liveStreams = [5], transports = [6], timers = [7],
     pendingMic = 0, decoding = [(demo_agent, demo_audio), (demo_agent, demo_audio)],
     started = []\<rparr>"
  by (simp add: demo_arrived_def demo_open_eval onmessage_begin_def message_reads)

lemma demo_backlog_eval:
  "demo_backlog = \<lparr>isConnected = True, isSpeaking = True, isListening = True,
     volumeLevels = zeroLevels, error = None,
     audioContextRef = Some 1, inputContextRef = Some 2, nextStartTimeRef = 1/2,
     sessionRef = Some 6, streamRef = Some 5, processorRef = Some 9, sourceRef = Some 8,
     inputAnalyserRef = Some 4, outputAnalyserRef = Some 3, volumeIntervalRef = Some 7,
     lastHandle = 9, openContexts = [2, 1], liveStreams = [5], transports = [6], timers = [7],
     pendingMic = 0, decoding = [],
     started = [\<lparr>startAt = 1/10, bufferDuration = 3/10, playbackRate = 3/2, detune = 100\<rparr>,
                \<lparr>startAt = 3/10, bufferDuration = 3/10, playbackRate = 3/2, detune = 100\<rparr>]\<rparr>"
  by (simp add: demo_backlog_def demo_settle_def demo_arrived_eval handler_steps message_reads)

lemma demo_closed_eval:
  "demo_closed = \<lparr>isConnected = False, isSpeaking = False, isListening = False,
     volumeLevels = zeroLevels, error = None,
     audioContextRef = None, inputContextRef = None, nextStartTimeRef = 0,
     sessionRef = None, streamRef = None, processorRef = None, sourceRef = None,
     inputAnalyserRef = Some 4, outputAnalyserRef = Some 3, volumeIntervalRef = None,
     lastHandle = 9, openContexts = [], liveStreams = [], transports = [6], timers = [],
     pendingMic = 0, decoding = [], started = []\<rparr>"
  by (simp add: demo_closed_def demo_open_eval cleanup_def cleanup_parts)

lemma demo_twice_eval:
  "connect demo_env demo_open = Returned
    \<lparr>isConnected = True, isSpeaking = False, isListening = True,
     volumeLevels = zeroLevels, error = None,
     audioContextRef = Some 10, inputContextRef = Some 11, nextStartTimeRef = 0,
     sessionRef = Some 15, streamRef = Some 14, processorRef = Some 9, sourceRef = Some 8,
     inputAnalyserRef = Some 13, outputAnalyserRef = Some 12, volumeIntervalRef = Some 16,
     lastHandle = 16, openContexts = [11, 10, 2, 1], liveStreams = [14, 5],
     transports = [15, 6], timers = [16, 7], pendingMic = 0, decoding = [], started = []\<rparr>"
  by (simp add: demo_open_eval demo_env_def connect_def connect_begin_def connect_resume_def
      Let_def eval_nat_numeral)




section \<open>Properties of the playback scheduler\<close>

lemma sourceRate_nonzero: "sourceRate agent \<noteq> 0"
  by (simp add: sourceRate_def split: option.split)

lemma advanceRate_eq: "advanceRate agent = sourceRate agent"
  by (simp add: advanceRate_def sourceRate_nonzero)

lemma sourceRate_pos:
  "(case voiceSettings agent of None \<Rightarrow> True | Some vs \<Rightarrow> 0 \<le> speed vs) \<Longrightarrow> 0 < sourceRate agent"
  by (auto simp add: sourceRate_def split: option.splits)

lemma onmessage_begin_audio:
  "truthy_string (base64Audio m) \<Longrightarrow> audioContextRef s \<noteq> None \<Longrightarrow>
   onmessage_begin a m now s =
     Awaiting (s\<lparr>isSpeaking := True, nextStartTimeRef := max (nextStartTimeRef s) now\<rparr>)"
  by (simp add: onmessage_begin_def)

lemma onmessage_resume_schedules:
  assumes "audioContextRef s \<noteq> None"
  shows "started (state_of (onmessage_resume a m (Some d) s)) =
           started s @ [\<lparr>startAt = nextStartTimeRef s, bufferDuration = d,
              playbackRate = sourceRate a, detune = sourceDetune a\<rparr>]"
    and "nextStartTimeRef (state_of (onmessage_resume a m (Some d) s)) =
           (if is_interrupted m then 0 else nextStartTimeRef s + d / sourceRate a)"
    and "\<exists>s'. onmessage_resume a m (Some d) s = Returned s'"
  using assms
  by (auto simp add: onmessage_resume_def onmessage_flags_frame advanceRate_eq Let_def
      split: option.splits)

lemma onmessage_resume_nothing:
  "dec = None \<or> audioContextRef s = None \<Longrightarrow> onmessage_resume a m dec s = Threw s"
  by (auto simp add: onmessage_resume_def split: option.splits)

lemma step_other_frame:
  assumes "\<And>a m now. e \<noteq> TransportMessage a m now" "\<And>i dec. e \<noteq> DecodeSettled i dec"
  shows "started (step e s) = started s" "nextStartTimeRef (step e s) = nextStartTimeRef s"
  using assms
  by (cases e;
      simp add: connect_begin_nextStart connect_resume_nextStart onopen_frame volumeTick_frame
        onclose_def onerror_def cleanup_frame)+

lemma step_calm:
  assumes "calm_event e s"
  shows "started (step e s) = started s \<and> nextStartTimeRef s \<le> nextStartTimeRef (step e s) \<and>
      (in_time e s \<longrightarrow> nextStartTimeRef (step e s) = nextStartTimeRef s)
    \<or> (\<exists>x. started (step e s) = started s @ [x] \<and> startAt x = nextStartTimeRef s \<and>
          0 \<le> playLength x \<and>
          nextStartTimeRef (step e s) = nextStartTimeRef s + playLength x)"
proof -
  consider (message) a m now where "e = TransportMessage a m now"
    | (decode) i dec where "e = DecodeSettled i dec"
    | (other) "\<And>a m now. e \<noteq> TransportMessage a m now" "\<And>i dec. e \<noteq> DecodeSettled i dec"
    by (cases e) auto
  then show ?thesis
  proof cases
  case (message a m now)
  note TransportMessage = message
  show ?thesis
  proof (cases "truthy_string (base64Audio m) \<and> audioContextRef s \<noteq> None")
    case True
    then show ?thesis
      using TransportMessage by (simp add: onmessage_begin_audio)
  next
    case False
    with assms TransportMessage have "\<not> is_interrupted m" by auto
    then show ?thesis
      using TransportMessage False by (simp add: onmessage_begin_def onmessage_flags_frame)
  qed
next
  case (decode i dec)
  note DecodeSettled = decode
  let ?s = "s\<lparr>decoding := take i (decoding s) @ drop (Suc i) (decoding s)\<rparr>"
  let ?a = "fst (decoding s ! i)"
  let ?m = "snd (decoding s ! i)"
  show ?thesis
  proof (cases "i < length (decoding s) \<and> dec \<noteq> None \<and> audioContextRef s \<noteq> None")
    case False
    then have "i < length (decoding s) \<Longrightarrow> onmessage_resume ?a ?m dec ?s = Threw ?s"
      by (intro onmessage_resume_nothing) auto
    then show ?thesis using DecodeSettled by (cases "i < length (decoding s)") simp_all
  next
    case True
    then obtain d where d: "dec = Some d" by auto
    from True assms DecodeSettled d
    have ok: "0 \<le> d" "\<not> is_interrupted ?m"
      "case voiceSettings ?a of None \<Rightarrow> True | Some vs \<Rightarrow> 0 \<le> speed vs"
      by simp_all
    have held: "audioContextRef ?s \<noteq> None" using True by simp
    let ?x = "\<lparr>startAt = nextStartTimeRef s, bufferDuration = d,
              playbackRate = sourceRate ?a, detune = sourceDetune ?a\<rparr>"
    have "started (step e s) = started s @ [?x]"
      using DecodeSettled True d onmessage_resume_schedules(1)[OF held, of ?a ?m d] by simp
    moreover have "nextStartTimeRef (step e s) = nextStartTimeRef s + playLength ?x"
      using DecodeSettled True d ok(2) onmessage_resume_schedules(2)[OF held, of ?a ?m d]
      by (simp add: playLength_def)
    moreover have "0 \<le> playLength ?x"
      using ok(1) sourceRate_pos[OF ok(3)] by (simp add: playLength_def)
    ultimately show ?thesis by auto
  qed
next
  case other
  then show ?thesis by (simp add: step_other_frame)
qed
qed

lemma follows_weaken: "follows n1 xs n' \<Longrightarrow> n \<le> n1 \<Longrightarrow> follows n xs n'"
  by (cases xs) auto

lemma run_follows:
  "calm es s \<Longrightarrow>
   \<exists>new. started (run es s) = started s @ new \<and>
     follows (nextStartTimeRef s) new (nextStartTimeRef (run es s)) \<and>
     (n \<le> length (started s) \<and> punctual n es s \<longrightarrow>
        (n < length (started s) \<longrightarrow>
           abuts (nextStartTimeRef s) new (nextStartTimeRef (run es s))) \<and>
        (new \<noteq> [] \<longrightarrow> abuts (startAt (hd new)) new (nextStartTimeRef (run es s))))"
proof (induction es arbitrary: s)
  case Nil
  then show ?case by simp
next
  case (Cons e es)
  then have e: "calm_event e s" and rest: "calm es (step e s)" by simp_all
  let ?final = "nextStartTimeRef (run es (step e s))"
  from Cons.IH[OF rest] obtain new where
    new: "started (run es (step e s)) = started (step e s) @ new"
      "follows (nextStartTimeRef (step e s)) new ?final"
      "n \<le> length (started (step e s)) \<and> punctual n es (step e s) \<longrightarrow>
         (n < length (started (step e s)) \<longrightarrow> abuts (nextStartTimeRef (step e s)) new ?final) \<and>
         (new \<noteq> [] \<longrightarrow> abuts (startAt (hd new)) new ?final)"
    by blast
  from step_calm[OF e] show ?case
  proof
    assume same: "started (step e s) = started s \<and>
      nextStartTimeRef s \<le> nextStartTimeRef (step e s) \<and>
      (in_time e s \<longrightarrow> nextStartTimeRef (step e s) = nextStartTimeRef s)"
    then have f: "follows (nextStartTimeRef s) new ?final"
      using new(2) follows_weaken by blast
    have "(n < length (started s) \<longrightarrow> abuts (nextStartTimeRef s) new ?final) \<and>
        (new \<noteq> [] \<longrightarrow> abuts (startAt (hd new)) new ?final)"
      if p: "n \<le> length (started s)" "punctual n (e # es) s"
    proof -
      from p have p': "n \<le> length (started (step e s)) \<and> punctual n es (step e s)"
        using same by simp
      have "abuts (nextStartTimeRef s) new ?final" if late: "n < length (started s)"
      proof -
        from p(2) late have "in_time e s" by simp
        then have "nextStartTimeRef (step e s) = nextStartTimeRef s" using same by blast
        then show ?thesis using new(3) p' late same by simp
      qed
      then show ?thesis using new(3) p' by blast
    qed
    then show ?thesis using same new(1) f by auto
  next
    assume "\<exists>x. started (step e s) = started s @ [x] \<and> startAt x = nextStartTimeRef s \<and>
          0 \<le> playLength x \<and>
          nextStartTimeRef (step e s) = nextStartTimeRef s + playLength x"
    then obtain x where x: "started (step e s) = started s @ [x]"
      "startAt x = nextStartTimeRef s" "0 \<le> playLength x"
      "nextStartTimeRef (step e s) = nextStartTimeRef s + playLength x"
      by blast
    have "started (run (e # es) s) = started s @ (x # new)"
      using new(1) x(1) by simp
    moreover have "follows (nextStartTimeRef s) (x # new) (nextStartTimeRef (run (e # es) s))"
      using new(2) x by simp
    moreover have "n \<le> length (started s) \<and> punctual n (e # es) s \<longrightarrow>
        (n < length (started s) \<longrightarrow>
           abuts (nextStartTimeRef s) (x # new) (nextStartTimeRef (run (e # es) s))) \<and>
        (x # new \<noteq> [] \<longrightarrow>
           abuts (startAt (hd (x # new))) (x # new) (nextStartTimeRef (run (e # es) s)))"
      using new(3) x by simp
    ultimately show ?thesis by blast
  qed
qed

lemma follows_bounds:
  "follows n xs n' \<Longrightarrow> n \<le> n' \<and> (\<forall>x \<in> set xs. n \<le> startAt x \<and> startAt x + playLength x \<le> n')"
proof (induction xs arbitrary: n)
  case Nil
  then show ?case by simp
next
  case (Cons x xs)
  then have h: "n \<le> startAt x" "0 \<le> playLength x"
    and r: "follows (startAt x + playLength x) xs n'" by simp_all
  from Cons.IH[OF r] h show ?case by fastforce
qed

lemma follows_no_overlap:
  "follows n xs n' \<Longrightarrow> Suc i < length xs \<Longrightarrow>
   startAt (xs ! i) + playLength (xs ! i) \<le> startAt (xs ! Suc i)"
proof (induction xs arbitrary: n i)
  case Nil
  then show ?case by simp
next
  case (Cons x xs)
  then have r: "follows (startAt x + playLength x) xs n'" by simp
  show ?case
  proof (cases i)
    case 0
    with Cons.prems(2) obtain y ys where "xs = y # ys" by (cases xs) auto
    with r 0 show ?thesis by simp
  next
    case (Suc j)
    with Cons.prems(2) Cons.IH[OF r, of j] show ?thesis by simp
  qed
qed

lemma follows_nonneg:
  "follows n xs n' \<Longrightarrow> \<forall>x \<in> set xs. 0 \<le> playLength x"
  by (induction xs arbitrary: n) auto

lemma follows_sorted:
  assumes "follows n xs n'"
  shows "sorted (map startAt xs)"
proof -
  have "startAt (xs ! i) \<le> startAt (xs ! Suc i)" if i: "Suc i < length xs" for i
  proof -
    have "xs ! i \<in> set xs" using i by simp
    then have "0 \<le> playLength (xs ! i)" using follows_nonneg[OF assms] by blast
    with follows_no_overlap[OF assms i] show ?thesis by simp
  qed
  then show ?thesis by (simp add: sorted_iff_nth_Suc)
qed

lemma abuts_exact:
  "abuts n xs n' \<Longrightarrow>
   n' = n + (\<Sum>x \<leftarrow> xs. playLength x) \<and> (xs \<noteq> [] \<longrightarrow> startAt (hd xs) = n) \<and>
   (\<forall>i. Suc i < length xs \<longrightarrow> startAt (xs ! Suc i) = startAt (xs ! i) + playLength (xs ! i))"
proof (induction xs arbitrary: n)
  case Nil
  then show ?case by simp
next
  case (Cons x xs)
  then have h: "startAt x = n" and r: "abuts (n + playLength x) xs n'" by simp_all
  note IH = Cons.IH[OF r]
  have "startAt ((x # xs) ! Suc i) = startAt ((x # xs) ! i) + playLength ((x # xs) ! i)"
    if i: "Suc i < length (x # xs)" for i
  proof (cases i)
    case 0
    with i obtain y ys where "xs = y # ys" by (cases xs) auto
    with IH h 0 show ?thesis by simp
  next
    case (Suc j)
    with i IH show ?thesis by simp
  qed
  then show ?case using IH h by simp
qed

lemma step_arrival:
  assumes "truthy_string (base64Audio m)" "audioContextRef s \<noteq> None" "transports s \<noteq> []"
  shows "nextStartTimeRef (step (TransportMessage a m t) s) = max (nextStartTimeRef s) t"
    and "started (step (TransportMessage a m t) s) = started s"
    and "decoding (step (TransportMessage a m t) s) = decoding s @ [(a, m)]"
    and "audioContextRef (step (TransportMessage a m t) s) = audioContextRef s"
  using assms by (simp_all add: onmessage_begin_audio)

lemma step_settle:
  assumes "i < length (decoding s)" "audioContextRef s \<noteq> None"
  shows "started (step (DecodeSettled i (Some d)) s) =
           started s @ [\<lparr>startAt = nextStartTimeRef s, bufferDuration = d,
              playbackRate = sourceRate (fst (decoding s ! i)),
              detune = sourceDetune (fst (decoding s ! i))\<rparr>]"
proof -
  let ?s = "s\<lparr>decoding := take i (decoding s) @ drop (Suc i) (decoding s)\<rparr>"
  have "audioContextRef ?s \<noteq> None" using assms(2) by simp
  from onmessage_resume_schedules(1)[OF this] assms(1) show ?thesis by simp
qed

text \<open>
  C1. The handler of a message suspends while its audio decodes, and other events,
  further messages among them, are handled meanwhile; so the claim is stated over
  histories of events, from any state. Along a history during which no interruption is
  handled and no decoded buffer has a negative duration or a persona a negative speed:
  the history only appends sources to those started before; none of them starts before
  the value the timeline had; the start times are non-decreasing; each source starts at
  or after the start of the one before plus that one's duration divided by its rate (no
  two overlap), and ends at or before the final value of the timeline. If moreover every
  message that arrives after the first of these sources has started arrives at a clock
  not beyond the timeline, each source starts exactly where the one before ends, and the
  span from the first start to the final value of the timeline is the sum of the
  durations divided by the rates. In any state: a message with audio, on a hook that
  holds an output context and a transport, raises the timeline to the clock if that is
  later and starts nothing yet; a decode settling with a buffer of duration \<open>d\<close> starts
  one source of duration \<open>d\<close> at the rate and detune of the persona at the value of the
  timeline.
\<close>

theorem playback_timeline_gapless:
  assumes calm: "calm es s"
  shows "(\<exists>new. started (run es s) = started s @ new \<and>
       nextStartTimeRef s \<le> nextStartTimeRef (run es s) \<and>
       (\<forall>x \<in> set new. nextStartTimeRef s \<le> startAt x \<and>
          0 \<le> bufferDuration x / playbackRate x \<and>
          startAt x + bufferDuration x / playbackRate x \<le> nextStartTimeRef (run es s)) \<and>
       sorted (map startAt new) \<and>
       (\<forall>i. Suc i < length new \<longrightarrow>
          startAt (new ! i) + bufferDuration (new ! i) / playbackRate (new ! i)
            \<le> startAt (new ! Suc i)) \<and>
       (punctual (length (started s)) es s \<longrightarrow>
          (\<forall>i. Suc i < length new \<longrightarrow>
             startAt (new ! Suc i) =
               startAt (new ! i) + bufferDuration (new ! i) / playbackRate (new ! i)) \<and>
          (new \<noteq> [] \<longrightarrow>
             nextStartTimeRef (run es s) - startAt (hd new) =
               (\<Sum>x \<leftarrow> new. bufferDuration x / playbackRate x)))) \<and>
     (truthy_string (base64Audio m) \<and> audioContextRef s0 \<noteq> None \<and> transports s0 \<noteq> [] \<longrightarrow>
        nextStartTimeRef (step (TransportMessage a m t) s0) = max (nextStartTimeRef s0) t \<and>
        started (step (TransportMessage a m t) s0) = started s0 \<and>
        decoding (step (TransportMessage a m t) s0) = decoding s0 @ [(a, m)]) \<and>
     (i < length (decoding s0) \<and> audioContextRef s0 \<noteq> None \<longrightarrow>
        started (step (DecodeSettled i (Some d)) s0) =
          started s0 @ [\<lparr>startAt = nextStartTimeRef s0, bufferDuration = d,
             playbackRate = sourceRate (fst (decoding s0 ! i)),
             detune = sourceDetune (fst (decoding s0 ! i))\<rparr>])"
proof -
  let ?final = "nextStartTimeRef (run es s)"
  from run_follows[OF calm, of "length (started s)"] obtain new where
    new: "started (run es s) = started s @ new"
      "follows (nextStartTimeRef s) new ?final"
      "punctual (length (started s)) es s \<longrightarrow>
         (new \<noteq> [] \<longrightarrow> abuts (startAt (hd new)) new ?final)"
    by auto
  note b = follows_bounds[OF new(2)] follows_nonneg[OF new(2)]
  have bounds: "\<forall>x \<in> set new. nextStartTimeRef s \<le> startAt x \<and>
          0 \<le> bufferDuration x / playbackRate x \<and>
          startAt x + bufferDuration x / playbackRate x \<le> ?final"
    using b by (simp add: playLength_def)
  have apart: "\<forall>i. Suc i < length new \<longrightarrow>
          startAt (new ! i) + bufferDuration (new ! i) / playbackRate (new ! i)
            \<le> startAt (new ! Suc i)"
    using follows_no_overlap[OF new(2)] by (simp add: playLength_def)
  have exact: "(\<forall>i. Suc i < length new \<longrightarrow>
             startAt (new ! Suc i) =
               startAt (new ! i) + bufferDuration (new ! i) / playbackRate (new ! i)) \<and>
          (new \<noteq> [] \<longrightarrow>
             ?final - startAt (hd new) = (\<Sum>x \<leftarrow> new. bufferDuration x / playbackRate x))"
    if p: "punctual (length (started s)) es s"
  proof (cases "new = []")
    case True
    then show ?thesis by simp
  next
    case False
    with new(3) p have "abuts (startAt (hd new)) new ?final" by blast
    from abuts_exact[OF this] show ?thesis
      unfolding playLength_def by auto
  qed
  have first: "\<exists>new. started (run es s) = started s @ new \<and>
       nextStartTimeRef s \<le> ?final \<and>
       (\<forall>x \<in> set new. nextStartTimeRef s \<le> startAt x \<and>
          0 \<le> bufferDuration x / playbackRate x \<and>
          startAt x + bufferDuration x / playbackRate x \<le> ?final) \<and>
       sorted (map startAt new) \<and>
       (\<forall>i. Suc i < length new \<longrightarrow>
          startAt (new ! i) + bufferDuration (new ! i) / playbackRate (new ! i)
            \<le> startAt (new ! Suc i)) \<and>
       (punctual (length (started s)) es s \<longrightarrow>
          (\<forall>i. Suc i < length new \<longrightarrow>
             startAt (new ! Suc i) =
               startAt (new ! i) + bufferDuration (new ! i) / playbackRate (new ! i)) \<and>
          (new \<noteq> [] \<longrightarrow>
             ?final - startAt (hd new) = (\<Sum>x \<leftarrow> new. bufferDuration x / playbackRate x)))"
    using new(1) b(1) bounds follows_sorted[OF new(2)] apart exact by blast
  show ?thesis
    using first step_arrival[of m s0 a t] step_settle[of i s0 d] by blast
qed

theorem playback_timeline_gapless_witness:
  "calm demo_two_chunks demo_open \<and>
   punctual (length (started demo_open)) demo_two_chunks demo_open \<and>
   nextStartTimeRef demo_open = 0 \<and>
   (\<exists>new. started (run demo_two_chunks demo_open) = started demo_open @ new \<and>
      length new = 2 \<and> sorted (map startAt new) \<and>
      startAt (new ! 0) = 1/10 \<and> startAt (new ! 1) = 1/10 + (3/10) / (3/2) \<and>
      startAt (new ! 1) = startAt (new ! 0) + bufferDuration (new ! 0) / playbackRate (new ! 0) \<and>
      nextStartTimeRef (run demo_two_chunks demo_open) - startAt (hd new) = 2/5)"
proof -
  have r: "run demo_two_chunks demo_open = demo_backlog"
    by (simp add: demo_two_chunks_def demo_backlog_def demo_settle_def demo_arrived_def)
  have mid: "step (TransportMessage demo_agent demo_audio (1/10))
               (step (TransportMessage demo_agent demo_audio 0) demo_open) = demo_arrived"
    by (simp add: demo_arrived_def)
  have c: "calm demo_two_chunks demo_open"
    unfolding demo_two_chunks_def calm.simps mid
    by (simp add: demo_arrived_eval handler_steps message_reads)
  have s0: "started demo_open = []" "nextStartTimeRef demo_open = 0"
    by (simp_all add: demo_open_eval)
  have s1: "started (step (TransportMessage demo_agent demo_audio 0) demo_open) = []"
    by (simp add: step_message_frame s0 del: step.simps)
  have s2: "started demo_arrived = []" by (simp add: demo_arrived_eval)
  have p: "punctual (length (started demo_open)) demo_two_chunks demo_open"
    unfolding demo_two_chunks_def punctual.simps mid
    by (simp add: s0 s1 s2 del: step.simps)
  have two: "length (started demo_backlog) = 2"
    "startAt (started demo_backlog ! 0) = 1/10"
    "(\<Sum>x \<leftarrow> started demo_backlog. bufferDuration x / playbackRate x) = 2/5"
    by (simp_all add: demo_backlog_eval)
  from playback_timeline_gapless[OF c] obtain new where
    new: "started (run demo_two_chunks demo_open) = started demo_open @ new"
      "sorted (map startAt new)"
      "punctual (length (started demo_open)) demo_two_chunks demo_open \<longrightarrow>
          (\<forall>i. Suc i < length new \<longrightarrow>
             startAt (new ! Suc i) =
               startAt (new ! i) + bufferDuration (new ! i) / playbackRate (new ! i)) \<and>
          (new \<noteq> [] \<longrightarrow>
             nextStartTimeRef (run demo_two_chunks demo_open) - startAt (hd new) =
               (\<Sum>x \<leftarrow> new. bufferDuration x / playbackRate x))"
    by blast
  have eq: "new = started demo_backlog" using new(1) s0(1) r by simp
  have len: "length new = 2" "new \<noteq> []" using two(1) eq by auto
  have first: "startAt (new ! 0) = 1/10" using two(2) eq by simp
  from new(3) p len have next_one:
    "startAt (new ! 1) = startAt (new ! 0) + bufferDuration (new ! 0) / playbackRate (new ! 0)"
    and span: "nextStartTimeRef (run demo_two_chunks demo_open) - startAt (hd new) = 2/5"
    using two(3) eq by auto
  have second: "startAt (new ! 1) = 1/10 + (3/10) / (3/2)"
    using eq by (simp add: demo_backlog_eval)
  show ?thesis using c p s0(2) new(1,2) len(1) first second next_one span by blast
qed

section \<open>Interruption\<close>






section \<open>Teardown\<close>

lemma removeAll_only: "set xs \<subseteq> {m} \<Longrightarrow> removeAll m xs = []"
  by (induction xs) auto

lemma cleanup_all_named_empty:
  assumes "all_named s" "volumeIntervalRef s \<noteq> Some 0"
  shows "openContexts (state_of (cleanup s)) = []"
    and "liveStreams (state_of (cleanup s)) = []"
    and "timers (state_of (cleanup s)) = []"
proof -
  have "set (openContexts (state_of (cleanup s))) = {}"
    using assms(1) unfolding cleanup_browser all_named_def by blast
  then show "openContexts (state_of (cleanup s)) = []" by simp
  show "liveStreams (state_of (cleanup s)) = []"
  proof (cases "streamRef s")
    case None
    then show ?thesis using assms(1) by (simp add: cleanup_browser all_named_def)
  next
    case (Some m)
    then have "set (liveStreams s) \<subseteq> {m}" using assms(1) by (simp add: all_named_def)
    then show ?thesis using Some by (simp add: cleanup_browser removeAll_only)
  qed
  show "timers (state_of (cleanup s)) = []"
  proof (cases "volumeIntervalRef s")
    case None
    then show ?thesis using assms(1) by (simp add: cleanup_browser all_named_def)
  next
    case (Some t)
    then have "set (timers s) \<subseteq> {t}" "t \<noteq> 0"
      using assms by (simp_all add: all_named_def)
    then show ?thesis using Some by (simp add: cleanup_browser removeAll_only)
  qed
qed

lemma cleanup_settled:
  assumes "settled_or_waiting s"
  shows "settled_or_waiting (state_of (cleanup s))"
proof -
  have a: "all_named s" and t: "volumeIntervalRef s \<noteq> Some 0"
    using assms by (simp_all add: settled_or_waiting_def)
  have "all_named (state_of (cleanup s))"
    using cleanup_all_named_empty[OF a t] by (simp add: all_named_def)
  then show ?thesis
    using assms t by (auto simp add: settled_or_waiting_def cleanup_refs cleanup_frame)
qed

lemma cleanup_error_settled:
  "settled_or_waiting s \<Longrightarrow> settled_or_waiting (state_of (cleanup (s\<lparr>error := e\<rparr>)))"
proof -
  assume "settled_or_waiting s"
  then have "settled_or_waiting (s\<lparr>error := e\<rparr>)"
    by (simp add: settled_or_waiting_def all_named_def)
  then show ?thesis by (rule cleanup_settled)
qed

lemma onopen_settled: "settled_or_waiting s \<Longrightarrow> settled_or_waiting (state_of (onopen s))"
  by (simp add: settled_or_waiting_def all_named_def onopen_def Let_def)

lemma volumeTick_settled:
  "settled_or_waiting s \<Longrightarrow> settled_or_waiting (state_of (volumeTick i out s))"
  by (simp add: settled_or_waiting_def all_named_def volumeTick_def Let_def)

lemma step_message_settled:
  "settled_or_waiting s \<Longrightarrow> settled_or_waiting (step (TransportMessage a m now) s)"
  by (simp add: settled_or_waiting_def all_named_def onmessage_begin_def onmessage_flags_def
      Let_def)

lemma step_decode_settled:
  "settled_or_waiting s \<Longrightarrow> settled_or_waiting (step (DecodeSettled i dec) s)"
  by (auto simp add: settled_or_waiting_def all_named_def onmessage_resume_def
      onmessage_flags_def Let_def split: option.splits)

lemma connect_begin_settled:
  assumes "settled_or_waiting s" "idle s"
  shows "settled_or_waiting (case connect_begin env s of Done c \<Rightarrow> state_of c | Awaiting s1 \<Rightarrow> s1)"
proof (cases "connect_begin env s")
  case (Awaiting s1)
  then show ?thesis
    using assms
    by (auto simp add: connect_begin_def Let_def settled_or_waiting_def all_named_def idle_def
        split: if_splits)
next
  case (Done c)
  then obtain x where c: "c = connect_catch x" and x: "settled_or_waiting x"
    using assms
    by (auto simp add: connect_begin_def Let_def settled_or_waiting_def all_named_def idle_def
        split: if_splits)
  have "settled_or_waiting (state_of (connect_catch x))"
    unfolding connect_catch_def using x by (rule cleanup_error_settled)
  then show ?thesis using Done c by simp
qed

lemma connect_resume_settled:
  assumes "settled_or_waiting s" "pendingMic s \<noteq> 0"
  shows "settled_or_waiting (state_of (connect_resume env s))"
proof -
  from assms have w: "pendingMic s = 1" "streamRef s = None" "volumeIntervalRef s = None"
    and a: "all_named s"
    by (auto simp add: settled_or_waiting_def)
  let ?s0 = "s\<lparr>pendingMic := pendingMic s - 1\<rparr>"
  have s0: "settled_or_waiting ?s0"
    using a w by (simp add: settled_or_waiting_def all_named_def)
  show ?thesis
  proof (cases "microphone_granted env")
    case False
    then have "connect_resume env s = connect_catch ?s0"
      by (simp add: connect_resume_def Let_def)
    then show ?thesis
      using cleanup_error_settled[OF s0] by (simp add: connect_catch_def)
  next
    case True
    note mic = True
    let ?m = "Suc (lastHandle s)"
    let ?s1 = "?s0\<lparr>streamRef := Some ?m, liveStreams := ?m # liveStreams ?s0, lastHandle := ?m\<rparr>"
    have s1: "settled_or_waiting ?s1"
      using a w by (auto simp add: settled_or_waiting_def all_named_def)
    show ?thesis
    proof (cases "client_ok env")
      case False
      then have "connect_resume env s = connect_catch ?s1"
        using mic by (simp add: connect_resume_def Let_def)
      then show ?thesis
        using cleanup_error_settled[OF s1] by (simp add: connect_catch_def)
    next
      case True
      then show ?thesis
        using mic a w
        by (auto simp add: connect_resume_def Let_def settled_or_waiting_def all_named_def)
    qed
  qed
qed

lemma step_settled:
  assumes "settled_or_waiting s" "is_CallConnect e \<longrightarrow> idle s"
  shows "settled_or_waiting (step e s)"
proof (cases e)
  case (CallConnect env)
  then show ?thesis using assms connect_begin_settled[of s env] by simp
next
  case (MicSettled env)
  then show ?thesis using assms connect_resume_settled[of s env] by simp
next
  case TransportError
  then show ?thesis using assms cleanup_error_settled[of s] by (simp add: onerror_def)
next
  case (TransportMessage a m now)
  then show ?thesis using assms(1) by (simp only: step_message_settled)
next
  case (DecodeSettled i dec)
  then show ?thesis using assms(1) by (simp only: step_decode_settled)
qed (use assms in \<open>simp_all add: onopen_settled volumeTick_settled
      cleanup_settled onclose_def\<close>)

lemma run_settled:
  "settled_or_waiting s \<Longrightarrow> one_at_a_time es s \<Longrightarrow> settled_or_waiting (run es s)"
proof (induction es arbitrary: s)
  case Nil
  then show ?case by simp
next
  case (Cons e es)
  then show ?case using step_settled[of s e] by simp
qed

lemma initial_settled: "settled_or_waiting initial"
  by (simp add: settled_or_waiting_def all_named_def initial_def)

lemma one_at_a_time_nothing_left:
  assumes "one_at_a_time es initial"
  shows "openContexts (state_of (cleanup (run es initial))) = [] \<and>
     liveStreams (state_of (cleanup (run es initial))) = [] \<and>
     timers (state_of (cleanup (run es initial))) = []"
proof -
  have "settled_or_waiting (run es initial)"
    using initial_settled assms by (rule run_settled)
  then have "all_named (run es initial)" "volumeIntervalRef (run es initial) \<noteq> Some 0"
    by (simp_all add: settled_or_waiting_def)
  then show ?thesis by (simp add: cleanup_all_named_empty)
qed

lemma cleanup_idem:
  assumes "volumeIntervalRef s \<noteq> Some 0"
  shows "cleanup (state_of (cleanup s)) = Returned (state_of (cleanup s))"
proof -
  let ?s = "state_of (cleanup s)"
  have refs: "processorRef ?s = None" "sourceRef ?s = None" "streamRef ?s = None"
    "inputContextRef ?s = None" "audioContextRef ?s = None" "sessionRef ?s = None"
    "volumeIntervalRef ?s = None"
    using assms by (simp_all add: cleanup_refs)
  have flags: "isConnected ?s = False" "isListening ?s = False" "isSpeaking ?s = False"
    "volumeLevels ?s = zeroLevels"
    by (simp_all add: cleanup_flags)
  have "reset_flags ?s = ?s"
    using flags by (simp add: reset_flags_def)
  then show ?thesis
    unfolding cleanup_def[of ?s]
    by (simp add: release_processor_def release_source_def release_stream_def
        close_inputContext_def close_audioContext_def clear_session_def
        clear_volumeInterval_def refs)
qed

text \<open>
  C4. \<open>disconnect\<close> is \<open>cleanup\<close>. After every history of events the timer ref holds no 0
  (a timer identifier is positive), and in every such state, whatever the refs hold,
  open or already closed, \<open>cleanup\<close> returns: the four flags are at their zero values,
  every ref it guards is empty, the stream, the two contexts and the timer that the refs
  named are no longer live, and a second call returns the same state. After a history
  in which \<open>connect\<close> was only called on an idle hook, no context, no stream and no timer
  is live at all once \<open>cleanup\<close> has returned.
\<close>

theorem disconnect_never_throws:
  "volumeIntervalRef (run es initial) \<noteq> Some 0 \<and>
   (\<forall>s. volumeIntervalRef s \<noteq> Some 0 \<longrightarrow>
     (\<exists>s'. cleanup s = Returned s' \<and>
        isConnected s' = False \<and> isListening s' = False \<and> isSpeaking s' = False \<and>
        volumeLevels s' = \<lparr>input_level = 0, output_level = 0\<rparr> \<and>
        streamRef s' = None \<and> (\<forall>m. streamRef s = Some m \<longrightarrow> m \<notin> set (liveStreams s')) \<and>
        inputContextRef s' = None \<and> audioContextRef s' = None \<and>
        (\<forall>c. inputContextRef s = Some c \<or> audioContextRef s = Some c
             \<longrightarrow> c \<notin> set (openContexts s')) \<and>
        processorRef s' = None \<and> sourceRef s' = None \<and>
        sessionRef s' = None \<and>
        volumeIntervalRef s' = None \<and>
        (\<forall>t. volumeIntervalRef s = Some t \<longrightarrow> t \<notin> set (timers s')) \<and>
        cleanup s' = Returned s')) \<and>
   (one_at_a_time es initial \<longrightarrow>
      openContexts (state_of (cleanup (run es initial))) = [] \<and>
      liveStreams (state_of (cleanup (run es initial))) = [] \<and>
      timers (state_of (cleanup (run es initial))) = [])"
proof -
  have "volumeIntervalRef (run es initial) \<noteq> Some 0"
    by (rule run_timer_positive[OF initial_timer])
  moreover have "\<exists>s'. cleanup s = Returned s' \<and>
        isConnected s' = False \<and> isListening s' = False \<and> isSpeaking s' = False \<and>
        volumeLevels s' = \<lparr>input_level = 0, output_level = 0\<rparr> \<and>
        streamRef s' = None \<and> (\<forall>m. streamRef s = Some m \<longrightarrow> m \<notin> set (liveStreams s')) \<and>
        inputContextRef s' = None \<and> audioContextRef s' = None \<and>
        (\<forall>c. inputContextRef s = Some c \<or> audioContextRef s = Some c
             \<longrightarrow> c \<notin> set (openContexts s')) \<and>
        processorRef s' = None \<and> sourceRef s' = None \<and>
        sessionRef s' = None \<and>
        volumeIntervalRef s' = None \<and>
        (\<forall>t. volumeIntervalRef s = Some t \<longrightarrow> t \<notin> set (timers s')) \<and>
        cleanup s' = Returned s'"
    if pos: "volumeIntervalRef s \<noteq> Some 0" for s
  proof -
    let ?s = "state_of (cleanup s)"
    have "cleanup s = Returned ?s" by (rule cleanup_Returned)
    moreover have "isConnected ?s = False \<and> isListening ?s = False \<and> isSpeaking ?s = False \<and>
        volumeLevels ?s = \<lparr>input_level = 0, output_level = 0\<rparr>"
      by (simp add: cleanup_flags zeroLevels_def)
    moreover have "streamRef ?s = None \<and> inputContextRef ?s = None \<and> audioContextRef ?s = None \<and>
        processorRef ?s = None \<and> sourceRef ?s = None \<and> sessionRef ?s = None \<and>
        volumeIntervalRef ?s = None"
      using pos by (simp add: cleanup_refs)
    moreover have "\<forall>m. streamRef s = Some m \<longrightarrow> m \<notin> set (liveStreams ?s)"
      by (simp add: cleanup_browser)
    moreover have "\<forall>c. inputContextRef s = Some c \<or> audioContextRef s = Some c
             \<longrightarrow> c \<notin> set (openContexts ?s)"
      by (auto simp add: cleanup_browser)
    moreover have "\<forall>t. volumeIntervalRef s = Some t \<longrightarrow> t \<notin> set (timers ?s)"
      using pos by (auto simp add: cleanup_browser)
    moreover have "cleanup ?s = Returned ?s" by (rule cleanup_idem[OF pos])
    ultimately show ?thesis by blast
  qed
  moreover have "one_at_a_time es initial \<longrightarrow>
      openContexts (state_of (cleanup (run es initial))) = [] \<and>
      liveStreams (state_of (cleanup (run es initial))) = [] \<and>
      timers (state_of (cleanup (run es initial))) = []"
    using one_at_a_time_nothing_left[of es] by blast
  ultimately show ?thesis by blast
qed

theorem disconnect_never_throws_witness:
  "one_at_a_time [CallConnect demo_env, MicSettled demo_env, TransportOpen] initial \<and>
   openContexts (state_of (cleanup demo_open)) = [] \<and>
   liveStreams (state_of (cleanup demo_open)) = [] \<and>
   timers (state_of (cleanup demo_open)) = [] \<and>
   volumeIntervalRef (run [CallConnect demo_env, MicSettled demo_env, TransportOpen] initial) = Some 7 \<and>
   (\<exists>s'. cleanup demo_open = Returned s' \<and> cleanup s' = Returned s' \<and>
      isConnected s' = False \<and> isListening s' = False \<and> isSpeaking s' = False \<and>
      volumeLevels s' = \<lparr>input_level = 0, output_level = 0\<rparr> \<and>
      streamRef s' = None \<and> 5 \<notin> set (liveStreams s') \<and>
      inputContextRef s' = None \<and> audioContextRef s' = None \<and>
      1 \<notin> set (openContexts s') \<and> 2 \<notin> set (openContexts s') \<and>
      sessionRef s' = None \<and> volumeIntervalRef s' = None \<and> 7 \<notin> set (timers s')) \<and>
   (\<exists>s'. cleanup initial = Returned s' \<and> cleanup s' = Returned s' \<and>
      isConnected s' = False \<and> isListening s' = False \<and> isSpeaking s' = False \<and>
      volumeLevels s' = \<lparr>input_level = 0, output_level = 0\<rparr>)"
proof -
  have refs: "volumeIntervalRef demo_open = Some 7" "streamRef demo_open = Some 5"
    "audioContextRef demo_open = Some 1" "inputContextRef demo_open = Some 2"
    by (simp_all add: demo_open_eval)
  have p1: "volumeIntervalRef demo_open \<noteq> Some 0" by (simp add: refs)
  have p2: "volumeIntervalRef initial \<noteq> Some 0" by (simp add: initial_def)
  note all_hist = disconnect_never_throws[of "[CallConnect demo_env, MicSettled demo_env, TransportOpen]"]
  have seq: "one_at_a_time [CallConnect demo_env, MicSettled demo_env, TransportOpen] initial"
    by (simp add: idle_def initial_def)
  from all_hist seq have empty: "openContexts (state_of (cleanup demo_open)) = []"
    "liveStreams (state_of (cleanup demo_open)) = []" "timers (state_of (cleanup demo_open)) = []"
    unfolding demo_open_def by blast+
  from all_hist have all: "\<And>s. volumeIntervalRef s \<noteq> Some 0 \<Longrightarrow>
     (\<exists>s'. cleanup s = Returned s' \<and>
        isConnected s' = False \<and> isListening s' = False \<and> isSpeaking s' = False \<and>
        volumeLevels s' = \<lparr>input_level = 0, output_level = 0\<rparr> \<and>
        streamRef s' = None \<and> (\<forall>m. streamRef s = Some m \<longrightarrow> m \<notin> set (liveStreams s')) \<and>
        inputContextRef s' = None \<and> audioContextRef s' = None \<and>
        (\<forall>c. inputContextRef s = Some c \<or> audioContextRef s = Some c
             \<longrightarrow> c \<notin> set (openContexts s')) \<and>
        processorRef s' = None \<and> sourceRef s' = None \<and>
        sessionRef s' = None \<and>
        volumeIntervalRef s' = None \<and>
        (\<forall>t. volumeIntervalRef s = Some t \<longrightarrow> t \<notin> set (timers s')) \<and>
        cleanup s' = Returned s')"
    by blast
  have "volumeIntervalRef (run [CallConnect demo_env, MicSettled demo_env, TransportOpen] initial) = Some 7"
    using refs(1) by (simp only: demo_open_def)
  moreover have "\<exists>s'. cleanup demo_open = Returned s' \<and> cleanup s' = Returned s' \<and>
      isConnected s' = False \<and> isListening s' = False \<and> isSpeaking s' = False \<and>
      volumeLevels s' = \<lparr>input_level = 0, output_level = 0\<rparr> \<and>
      streamRef s' = None \<and> 5 \<notin> set (liveStreams s') \<and>
      inputContextRef s' = None \<and> audioContextRef s' = None \<and>
      1 \<notin> set (openContexts s') \<and> 2 \<notin> set (openContexts s') \<and>
      sessionRef s' = None \<and> volumeIntervalRef s' = None \<and> 7 \<notin> set (timers s')"
  proof -
    from all[OF p1] obtain s' where
      r: "cleanup demo_open = Returned s'" "cleanup s' = Returned s'"
        "isConnected s' = False" "isListening s' = False" "isSpeaking s' = False"
        "volumeLevels s' = \<lparr>input_level = 0, output_level = 0\<rparr>"
        "streamRef s' = None" "inputContextRef s' = None" "audioContextRef s' = None"
        "sessionRef s' = None" "volumeIntervalRef s' = None"
      and gone: "\<forall>m. streamRef demo_open = Some m \<longrightarrow> m \<notin> set (liveStreams s')"
        "\<forall>c. inputContextRef demo_open = Some c \<or> audioContextRef demo_open = Some c
             \<longrightarrow> c \<notin> set (openContexts s')"
        "\<forall>t. volumeIntervalRef demo_open = Some t \<longrightarrow> t \<notin> set (timers s')"
      by blast
    from gone refs have "5 \<notin> set (liveStreams s')" "1 \<notin> set (openContexts s')"
      "2 \<notin> set (openContexts s')" "7 \<notin> set (timers s')"
      by blast+
    with r show ?thesis by blast
  qed
  moreover from all[OF p2] have "\<exists>s'. cleanup initial = Returned s' \<and> cleanup s' = Returned s' \<and>
      isConnected s' = False \<and> isListening s' = False \<and> isSpeaking s' = False \<and>
      volumeLevels s' = \<lparr>input_level = 0, output_level = 0\<rparr>"
    by blast
  ultimately show ?thesis using seq empty by blast
qed

text \<open>
  C9. \<open>cleanup\<close> leaves the error slot as it is while it zeroes the other flags; after
  a failed \<open>connect\<close> the error is set and is still set after another \<open>cleanup\<close>; no
  event other than a call of \<open>connect\<close> turns a set error slot into an empty one; and a
  call of \<open>connect\<close> that reaches its \<open>await\<close> has emptied it.
\<close>

theorem cleanup_keeps_error:
  "error (state_of (cleanup s)) = error s \<and>
   isConnected (state_of (cleanup s)) = False \<and> isListening (state_of (cleanup s)) = False \<and>
   isSpeaking (state_of (cleanup s)) = False \<and>
   volumeLevels (state_of (cleanup s)) = \<lparr>input_level = 0, output_level = 0\<rparr> \<and>
   (\<not> (outputContext_ok env \<and> inputContext_ok env \<and> getUserMedia_ok env \<and>
        microphone_granted env \<and> client_ok env) \<longrightarrow>
      error (state_of (connect env s)) = Some ''Failed to initialize'' \<and>
      error (state_of (cleanup (state_of (connect env s)))) = Some ''Failed to initialize'') \<and>
   (\<not> is_CallConnect e \<and> error s \<noteq> None \<longrightarrow> error (step e s) \<noteq> None) \<and>
   (outputContext_ok env \<and> inputContext_ok env \<and> getUserMedia_ok env \<longrightarrow>
      error (step (CallConnect env) s) = None)"
proof -
  have fail: "error (state_of (connect env s)) = Some ''Failed to initialize''"
    if "\<not> (outputContext_ok env \<and> inputContext_ok env \<and> getUserMedia_ok env \<and>
        microphone_granted env \<and> client_ok env)"
  proof (cases "connect_begin env s")
    case (Awaiting s1)
    then have "outputContext_ok env \<and> inputContext_ok env \<and> getUserMedia_ok env"
      by (auto simp add: connect_begin_def Let_def split: if_splits)
    with that have "\<not> (microphone_granted env \<and> client_ok env)" by blast
    then have "error (state_of (connect_resume env s1)) = Some ''Failed to initialize''"
      by (simp only: connect_resume_error if_False)
    then show ?thesis using Awaiting by (simp add: connect_def)
  next
    case (Done c)
    then have "error (state_of c) = Some ''Failed to initialize''"
      by (auto simp add: connect_begin_def Let_def connect_catch_fields split: if_splits)
    then show ?thesis using Done by (simp add: connect_def)
  qed
  show ?thesis
    using fail step_error_stays[of e s] connect_begin_error[of env s]
    by (simp add: cleanup_frame cleanup_flags zeroLevels_def)
qed

theorem cleanup_keeps_error_witness:
  "error (state_of (connect demo_denied demo_open)) = Some ''Failed to initialize'' \<and>
   error (state_of (cleanup (state_of (connect demo_denied demo_open)))) = Some ''Failed to initialize'' \<and>
   error (step TransportOpen (state_of (connect demo_denied demo_open))) \<noteq> None \<and>
   error (step (CallConnect demo_env) (state_of (connect demo_denied demo_open))) = None"
proof -
  let ?f = "state_of (connect demo_denied demo_open)"
  have h: "\<not> (outputContext_ok demo_denied \<and> inputContext_ok demo_denied \<and>
      getUserMedia_ok demo_denied \<and> microphone_granted demo_denied \<and> client_ok demo_denied)"
    by (simp add: demo_denied_def demo_env_def)
  have ok: "outputContext_ok demo_env \<and> inputContext_ok demo_env \<and> getUserMedia_ok demo_env"
    by (simp add: demo_env_def)
  have nc: "\<not> is_CallConnect TransportOpen" by simp
  from cleanup_keeps_error[of demo_open demo_denied TransportOpen] h
  have e1: "error ?f = Some ''Failed to initialize''"
    and e2: "error (state_of (cleanup ?f)) = Some ''Failed to initialize''"
    by blast+
  from cleanup_keeps_error[of ?f demo_env TransportOpen] nc e1 ok
  have "error (step TransportOpen ?f) \<noteq> None"
    and "error (step (CallConnect demo_env) ?f) = None"
    by auto
  with e1 e2 show ?thesis by blast
qed

section \<open>connect\<close>

lemma connect_catch_Returned: "connect_catch s = Returned (state_of (connect_catch s))"
  by (simp add: connect_catch_def cleanup_def)

















text \<open>
  C3, as the code has it. \<open>connect\<close> makes no test of the state it is called in. From
  any state, a call whose steps all succeed returns with two more open contexts, one more
  live stream, one more transport and one more timer than before, all with new handles;
  the refs name the new ones; what was open before stays open.
\<close>

theorem connect_has_no_guard:
  assumes ok: "outputContext_ok env" "inputContext_ok env" "getUserMedia_ok env"
    "microphone_granted env" "client_ok env"
  shows "\<exists>s' a b m h t. connect env s = Returned s' \<and>
     audioContextRef s' = Some a \<and> inputContextRef s' = Some b \<and>
     streamRef s' = Some m \<and> sessionRef s' = Some h \<and> volumeIntervalRef s' = Some t \<and>
     openContexts s' = b # a # openContexts s \<and>
     liveStreams s' = m # liveStreams s \<and>
     transports s' = h # transports s \<and>
     timers s' = t # timers s \<and>
     lastHandle s < a \<and> a < b \<and> b < m \<and> m < h \<and> h < t \<and>
     isConnected s' = isConnected s \<and> error s' = None"
  using ok
  by (simp add: connect_def connect_begin_def connect_resume_def Let_def)

text \<open>
  On an open session a second call of \<open>connect\<close> that succeeds leaves four contexts, two
  streams, two transports and two timers. A \<open>disconnect\<close> after it releases the second
  set only: the contexts, the stream and the timer of the first call stay live, and no
  ref names them.
\<close>

theorem connect_while_open_counterexample:
  "isConnected demo_open = True \<and>
   openContexts demo_open = [2, 1] \<and> liveStreams demo_open = [5] \<and>
   transports demo_open = [6] \<and> timers demo_open = [7] \<and>
   state_of (connect demo_env demo_open) \<noteq> demo_open \<and>
   openContexts (state_of (connect demo_env demo_open)) = [11, 10, 2, 1] \<and>
   liveStreams (state_of (connect demo_env demo_open)) = [14, 5] \<and>
   transports (state_of (connect demo_env demo_open)) = [15, 6] \<and>
   timers (state_of (connect demo_env demo_open)) = [16, 7] \<and>
   openContexts (state_of (cleanup (state_of (connect demo_env demo_open)))) = [2, 1] \<and>
   liveStreams (state_of (cleanup (state_of (connect demo_env demo_open)))) = [5] \<and>
   timers (state_of (cleanup (state_of (connect demo_env demo_open)))) = [7]"
proof -
  have before: "isConnected demo_open = True" "openContexts demo_open = [2, 1]"
    "liveStreams demo_open = [5]" "transports demo_open = [6]" "timers demo_open = [7]"
    by (simp_all add: demo_open_eval)
  have after: "openContexts (state_of (connect demo_env demo_open)) = [11, 10, 2, 1]"
    "liveStreams (state_of (connect demo_env demo_open)) = [14, 5]"
    "transports (state_of (connect demo_env demo_open)) = [15, 6]"
    "timers (state_of (connect demo_env demo_open)) = [16, 7]"
    by (simp_all add: demo_twice_eval)
  have changed: "state_of (connect demo_env demo_open) \<noteq> demo_open"
    using before(2) after(1) by auto
  have left: "openContexts (state_of (cleanup (state_of (connect demo_env demo_open)))) = [2, 1]"
    "liveStreams (state_of (cleanup (state_of (connect demo_env demo_open)))) = [5]"
    "timers (state_of (cleanup (state_of (connect demo_env demo_open)))) = [7]"
    by (simp_all add: demo_twice_eval cleanup_def cleanup_parts)
  show ?thesis using before after changed left by blast
qed

theorem connect_has_no_guard_witness:
  "outputContext_ok demo_env \<and> inputContext_ok demo_env \<and> getUserMedia_ok demo_env \<and>
   microphone_granted demo_env \<and> client_ok demo_env \<and> isConnected demo_open = True \<and>
   (\<exists>s' a b m h t. connect demo_env demo_open = Returned s' \<and>
     audioContextRef s' = Some a \<and> inputContextRef s' = Some b \<and>
     streamRef s' = Some m \<and> sessionRef s' = Some h \<and> volumeIntervalRef s' = Some t \<and>
     openContexts s' = [b, a, 2, 1] \<and>
     liveStreams s' = [m, 5] \<and>
     transports s' = [h, 6] \<and>
     timers s' = [t, 7])"
proof -
  have ok: "outputContext_ok demo_env" "inputContext_ok demo_env" "getUserMedia_ok demo_env"
    "microphone_granted demo_env" "client_ok demo_env"
    by (simp_all add: demo_env_def)
  have st: "openContexts demo_open = [2, 1]" "isConnected demo_open = True"
    "liveStreams demo_open = [5]" "transports demo_open = [6]" "timers demo_open = [7]"
    by (simp_all add: demo_open_eval)
  from connect_has_no_guard[OF ok, of demo_open] show ?thesis
    unfolding st using ok by blast
qed

section \<open>The speaking flag\<close>

text \<open>
  C7, as the code has it. A message with a non-empty audio payload, on a hook that
  holds an output context, sets the speaking flag, and the flag stays set when the
  message has no turn-complete flag (also when decoding fails). A message with the
  turn-complete flag whose handler returns leaves the flag cleared, with or without
  audio. A message with neither leaves the flag as it was, and so does an audio message
  on a hook without output context. A timer tick sets the flag to whether the output
  level is above 0.01, whatever the flag was.
\<close>

theorem speaking_flag_rules:
  "(truthy_string (base64Audio m) \<and> audioContextRef s \<noteq> None \<and> \<not> is_turnComplete m \<longrightarrow>
      isSpeaking (state_of (onmessage a m now dec s)) = True) \<and>
   (is_turnComplete m \<and> onmessage a m now dec s = Returned s' \<longrightarrow> isSpeaking s' = False) \<and>
   (\<not> (truthy_string (base64Audio m) \<and> audioContextRef s \<noteq> None) \<and> \<not> is_turnComplete m \<longrightarrow>
      isSpeaking (state_of (onmessage a m now dec s)) = isSpeaking s) \<and>
   isSpeaking (state_of (volumeTick inputData outputData s)) =
     (1/100 < output_level (volumeLevels (state_of (volumeTick inputData outputData s)))) \<and>
   output_level (volumeLevels (state_of (volumeTick inputData outputData s))) =
     (case outputAnalyserRef s of None \<Rightarrow> 0 | Some h \<Rightarrow> level outputData)"
  by (auto simp add: onmessage_def onmessage_begin_def onmessage_resume_def onmessage_flags_def
      volumeTick_def Let_def split: option.splits if_splits)

text \<open>
  After \<open>disconnect\<close> the transport is still there (the hook never closes it) and the
  output context ref is empty: an audio message that arrives then does not set the
  flag.
\<close>

theorem speaking_flag_counterexample:
  "truthy_string (base64Audio demo_audio) \<and> transports demo_closed \<noteq> [] \<and>
   isSpeaking (step (TransportMessage demo_agent demo_audio 1) demo_closed) = False \<and>
   decoding (step (TransportMessage demo_agent demo_audio 1) demo_closed) = [] \<and>
   isSpeaking (state_of (onmessage demo_agent demo_audio 1 (Some (1/2)) demo_closed)) = False"
  by (simp add: demo_closed_eval onmessage_def onmessage_begin_def onmessage_flags_def
      message_reads)

theorem speaking_flag_rules_witness:
  "isSpeaking (state_of (onmessage demo_agent demo_audio (1/5) (Some (3/10)) demo_open)) = True \<and>
   isSpeaking (state_of (onmessage demo_agent demo_turnComplete (1/5) None demo_backlog)) = False \<and>
   isSpeaking (state_of (onmessage demo_agent demo_audio (1/5) (Some (3/10)) demo_closed)) = False \<and>
   isSpeaking (state_of (volumeTick [0, 0] [128, 255] demo_closed)) = True"
proof -
  have a1: "truthy_string (base64Audio demo_audio) \<and> audioContextRef demo_open \<noteq> None \<and>
      \<not> is_turnComplete demo_audio"
    by (simp add: message_reads demo_open_eval)
  have a2: "is_turnComplete demo_turnComplete \<and>
      onmessage demo_agent demo_turnComplete (1/5) None demo_backlog =
        Returned (demo_backlog\<lparr>isSpeaking := False\<rparr>)"
    by (simp add: message_reads onmessage_def onmessage_begin_def onmessage_flags_def)
  have a3: "\<not> (truthy_string (base64Audio demo_audio) \<and> audioContextRef demo_closed \<noteq> None) \<and>
      \<not> is_turnComplete demo_audio"
    by (simp add: message_reads demo_closed_eval)
  have a4: "output_level (volumeLevels (state_of (volumeTick [0, 0] [128, 255] demo_closed))) = 383/510"
    using speaking_flag_rules[of demo_audio demo_closed demo_agent 0 None undefined "[0, 0]" "[128, 255]"]
    by (simp add: demo_closed_eval level_def)
  show ?thesis
    using speaking_flag_rules[of demo_audio demo_open demo_agent "1/5" "Some (3/10)"] a1
      speaking_flag_rules[of demo_turnComplete demo_backlog demo_agent "1/5" None
        "demo_backlog\<lparr>isSpeaking := False\<rparr>"] a2
      speaking_flag_rules[of demo_audio demo_closed demo_agent "1/5" "Some (3/10)" _ "[0, 0]" "[128, 255]"] a3 a4
    by (simp add: demo_closed_eval)
qed

section \<open>PCM framing: the round trip\<close>

lemma to_integer_near: "\<bar>real_of_int (to_integer r y) - y\<bar> \<le> 1"
  by (cases r) (auto simp add: to_integer_def round_def; linarith)+

lemma to_integer_mono_bounds:
  "real_of_int lo \<le> y \<Longrightarrow> y \<le> real_of_int hi \<Longrightarrow>
   lo \<le> to_integer r y \<and> to_integer r y \<le> hi"
  by (cases r) (auto simp add: to_integer_def round_def le_floor_iff floor_le_iff ceiling_le_iff
      le_ceiling_iff; linarith)+

lemma quantize_range: "- 32768 \<le> quantize r x \<and> quantize r x \<le> 32767"
  by (simp add: quantize_def)

lemma quantize_error:
  assumes "- 1 \<le> x" "x \<le> 1"
  shows "\<bar>dequantize (quantize r x) - x\<bar> \<le> 1 / 32768"
proof -
  let ?y = "x * 32768"
  let ?k = "to_integer r ?y"
  have y: "real_of_int (- 32768) \<le> ?y" "?y \<le> real_of_int 32768" using assms by simp_all
  have k: "- 32768 \<le> ?k" "?k \<le> 32768"
    using to_integer_mono_bounds[OF y, of r] by simp_all
  have near: "\<bar>real_of_int ?k - ?y\<bar> \<le> 1" by (rule to_integer_near)
  have "\<bar>real_of_int (quantize r x) - ?y\<bar> \<le> 1"
  proof (cases "?k = 32768")
    case True
    then have q: "quantize r x = 32767" by (simp add: quantize_def)
    from near True have "32767 \<le> ?y" by simp
    with y(2) show ?thesis by (simp add: q)
  next
    case False
    with k have "quantize r x = ?k" by (simp add: quantize_def)
    with near show ?thesis by simp
  qed
  then have "\<bar>real_of_int (quantize r x) - x * 32768\<bar> / 32768 \<le> 1 / 32768"
    by (simp add: divide_right_mono)
  moreover have "\<bar>real_of_int (quantize r x) - x * 32768\<bar> / 32768 =
      \<bar>dequantize (quantize r x) - x\<bar>"
    by (simp add: dequantize_def abs_if field_simps)
  ultimately show ?thesis by simp
qed

lemma mod_65536:
  assumes "- 32768 \<le> (q::int)" "q \<le> 32767"
  shows "q mod 65536 = (if 0 \<le> q then q else q + 65536)"
proof (cases "0 \<le> q")
  case True
  then show ?thesis using assms by simp
next
  case False
  have "(q + 65536) mod 65536 = q + 65536"
    using assms False by (intro mod_pos_pos_trivial) linarith+
  moreover have "(q + 65536) mod 65536 = q mod 65536" by simp
  ultimately show ?thesis using False by simp
qed

lemma bytes_join: "int (u mod 256) + 256 * int (u div 256) = int u"
proof -
  have "u mod 256 + 256 * (u div 256) = u" by simp
  then have "int (u mod 256 + 256 * (u div 256)) = int u" by (rule arg_cong)
  then show ?thesis by (simp only: of_nat_add of_nat_mult of_nat_numeral)
qed

lemma int16_bytes_round_trip:
  assumes "- 32768 \<le> q" "q \<le> 32767"
  shows "\<exists>lo hi. int16_bytes q = [lo, hi] \<and> lo < 256 \<and> hi < 256 \<and> bytes_int16 lo hi = q"
proof -
  define u where "u = nat (q mod 65536)"
  have m: "q mod 65536 = (if 0 \<le> q then q else q + 65536)"
    by (rule mod_65536[OF assms])
  have u: "int u = (if 0 \<le> q then q else q + 65536)"
    unfolding u_def using m assms by (simp split: if_splits)
  have ulim: "u < 65536"
  proof -
    have "int u < 65536" using u assms by (simp split: if_splits)
    then show ?thesis by linarith
  qed
  have "bytes_int16 (u mod 256) (u div 256) = q"
    unfolding bytes_int16_def Let_def bytes_join
    using u assms by (simp split: if_splits)
  moreover have "u mod 256 < 256" by simp
  moreover have "u div 256 < 256" using ulim by simp
  moreover have "int16_bytes q = [u mod 256, u div 256]"
    by (simp add: int16_bytes_def Let_def u_def)
  ultimately show ?thesis by blast
qed

lemma alphabet_length: "length alphabet = 64"
  by (simp add: alphabet_def)

lemma alphabet_distinct: "distinct alphabet"
  by (simp add: alphabet_def)

lemma pad_not_in_alphabet: "CHR ''='' \<notin> set alphabet"
  by (simp add: alphabet_def)

lemma div_low: "y < n \<Longrightarrow> (x * n + y) div n = (x::nat)"
  by simp
lemma mod_low: "y < n \<Longrightarrow> (x * n + y) mod n = (y::nat)"
  by simp
lemma sextets_bounds:
  fixes a b c :: nat
  assumes "a < 256" "b < 256" "c < 256"
  shows "a div 4 < 64" "b div 16 < 16" "c div 64 < 4" "a mod 4 < 4" "b mod 16 < 16" "c mod 64 < 64"
  using assms by simp_all
lemma sextets_lt:
  fixes a b c :: nat
  assumes "a < 256" "b < 256" "c < 256"
  shows "(a mod 4) * 16 + b div 16 < 64" "(b mod 16) * 4 + c div 64 < 64"
     "(a mod 4) * 16 < 64" "(b mod 16) * 4 < 64"
  using sextets_bounds[OF assms] by linarith+

lemma sextets_back:
  fixes a b c :: nat
  assumes "a < 256" "b < 256" "c < 256"
  shows "(a div 4) * 4 + ((a mod 4) * 16 + b div 16) div 16 = a"
    "(a div 4) * 4 + ((a mod 4) * 16) div 16 = a"
    "(((a mod 4) * 16 + b div 16) mod 16) * 16 + ((b mod 16) * 4 + c div 64) div 4 = b"
    "(((a mod 4) * 16 + b div 16) mod 16) * 16 + ((b mod 16) * 4) div 4 = b"
    "(((b mod 16) * 4 + c div 64) mod 4) * 64 + c mod 64 = c"
  using sextets_bounds[OF assms]
  by (simp_all add: div_low mod_low)

lemma b64index_b64char: "i < 64 \<Longrightarrow> b64index (b64char i) = Some i"
  using map_of_zip_nth[of alphabet "[0 ..< length alphabet]" i] alphabet_distinct
  by (simp add: b64index_def b64char_def alphabet_length)

lemma b64char_not_pad: "i < 64 \<Longrightarrow> b64char i \<noteq> CHR ''=''"
proof -
  assume "i < 64"
  then have "b64char i \<in> set alphabet"
    by (simp add: b64char_def alphabet_length)
  with pad_not_in_alphabet show ?thesis by auto
qed

lemma pcm_bytes_round_trip:
  "\<forall>q \<in> set qs. - 32768 \<le> q \<and> q \<le> 32767 \<Longrightarrow>
   bytes_pcm (pcm_bytes qs) = Some qs \<and> (\<forall>b \<in> set (pcm_bytes qs). b < 256)"
proof (induction qs)
  case Nil
  then show ?case by simp
next
  case (Cons q qs)
  then obtain lo hi where "int16_bytes q = [lo, hi]" "lo < 256" "hi < 256" "bytes_int16 lo hi = q"
    using int16_bytes_round_trip[of q] by auto
  with Cons show ?case by simp
qed

lemma b64_round_trip:
  "\<forall>b \<in> set bytes. b < 256 \<Longrightarrow> b64decode (b64encode bytes) = Some bytes"
proof (induction bytes rule: b64encode.induct)
  case 1
  then show ?case by simp
next
  case (2 a)
  then have a: "a < 256" by simp
  show ?case
    using sextets_bounds[OF a a a] sextets_lt[OF a a a] sextets_back[OF a a a]
    by (simp add: b64index_b64char)
next
  case (3 a b)
  then have a: "a < 256" and b: "b < 256" by simp_all
  show ?case
    using sextets_bounds[OF a b b] sextets_lt[OF a b b] sextets_back[OF a b b]
    by (simp add: b64index_b64char b64char_not_pad)
next
  case (4 a b c rest)
  then have a: "a < 256" and b: "b < 256" and c: "c < 256"
    and IH: "b64decode (b64encode rest) = Some rest" by simp_all
  show ?case
    using sextets_bounds[OF a b c] sextets_lt[OF a b c] sextets_back[OF a b c] IH
    by (simp add: b64index_b64char b64char_not_pad)
qed

text \<open>
  C6. A block of samples in [-1,1] is encoded by \<open>createPcmBlob\<close> (quantized, clamped,
  written as little-endian bytes, base64-encoded). Decoding the payload of the blob
  succeeds, at whatever rate is asked for, gives as many samples as were encoded, and
  each differs from the original by at most 1/32768, for each of the roundings.
\<close>

theorem pcm_round_trip:
  assumes range: "\<forall>x \<in> set samples. - 1 \<le> x \<and> x \<le> 1"
  shows "\<exists>buffer.
     decodeAudioData (blob_data (createPcmBlob r samples)) rate 1 = Some buffer \<and>
     sampleRate buffer = rate \<and> numberOfChannels buffer = 1 \<and>
     length (channelData buffer) = length samples \<and>
     (\<forall>i < length samples. \<bar>channelData buffer ! i - samples ! i\<bar> \<le> 1 / 32768)"
proof -
  let ?qs = "map (quantize r) samples"
  have q: "\<forall>q \<in> set ?qs. - 32768 \<le> q \<and> q \<le> 32767"
    using quantize_range by simp
  note bytes = pcm_bytes_round_trip[OF q]
  have b64: "b64decode (b64encode (pcm_bytes ?qs)) = Some (pcm_bytes ?qs)"
    using bytes by (simp add: b64_round_trip)
  let ?buffer = "\<lparr>channelData = map dequantize ?qs, sampleRate = rate, numberOfChannels = 1\<rparr>"
  have dec: "decodeAudioData (blob_data (createPcmBlob r samples)) rate 1 = Some ?buffer"
    using b64 bytes by (simp add: decodeAudioData_def createPcmBlob_def)
  have "\<bar>channelData ?buffer ! i - samples ! i\<bar> \<le> 1 / 32768" if i: "i < length samples" for i
  proof -
    have "samples ! i \<in> set samples" using i by simp
    with range have "- 1 \<le> samples ! i" "samples ! i \<le> 1" by auto
    from quantize_error[OF this, of r] show ?thesis using i by simp
  qed
  with dec show ?thesis by simp
qed


theorem pcm_round_trip_witness:
  "list_all (\<lambda>x. - 1 \<le> x \<and> x \<le> 1) demo_samples \<and>
   (\<exists>buffer.
     decodeAudioData (blob_data (createPcmBlob Truncate demo_samples)) 16000 1 = Some buffer \<and>
     length (channelData buffer) = 4 \<and>
     \<bar>channelData buffer ! 3 - 1\<bar> \<le> 1 / 32768)"
proof -
  have h: "\<forall>x \<in> set demo_samples. - 1 \<le> x \<and> x \<le> 1"
    by (simp add: demo_samples_def)
  have n: "length demo_samples = 4" "demo_samples ! 3 = 1"
    by (simp_all add: demo_samples_def)
  from pcm_round_trip[OF h, of Truncate 16000] obtain buffer where
    b: "decodeAudioData (blob_data (createPcmBlob Truncate demo_samples)) 16000 1 = Some buffer"
      "length (channelData buffer) = length demo_samples"
      "\<forall>i < length demo_samples. \<bar>channelData buffer ! i - demo_samples ! i\<bar> \<le> 1 / 32768"
    by blast
  have "3 < length demo_samples" by (simp add: n)
  from b(3)[rule_format, OF this]
  have "\<bar>channelData buffer ! 3 - 1\<bar> \<le> 1 / 32768" by (simp only: n)
  moreover have "list_all (\<lambda>x. - 1 \<le> x \<and> x \<le> 1) demo_samples"
    using h by (simp add: list_all_iff)
  ultimately show ?thesis using b(1,2) n(1) by auto
qed


section \<open>The capture callback: order of the outbound frames\<close>

lemma in_order_step:
  "in_order createBlob frames u \<Longrightarrow>
   in_order createBlob (frames @ captured [e]) (uplink_step createBlob e u)"
  by (cases e; cases "sessionPromise u")
    (simp_all add: in_order_def onaudioprocess_def session_fulfilled_def session_rejected_def)

lemma captured_append: "captured (e # es) = captured [e] @ captured es"
  by (cases e) simp_all

lemma in_order_run:
  "in_order createBlob frames u \<Longrightarrow>
   in_order createBlob (frames @ captured es) (uplink_run createBlob es u)"
proof (induction es arbitrary: frames u)
  case Nil
  then show ?case by simp
next
  case (Cons e es)
  from Cons.IH[OF in_order_step[OF Cons.prems, of e]]
  show ?case by (simp add: captured_append[of e es])
qed

text \<open>
  C8. After any history of captured frames and of the settling of the session promise:
  what the transport was given is the blobs of all captured frames, in the order of
  capture, once the promise is fulfilled (the blobs wait in that order while it is
  pending, and nothing is sent when it is rejected). On a fulfilled promise a captured
  frame is encoded and handed to the transport in the same step, with no other
  condition, and no step reorders or withdraws what was handed over.
\<close>

theorem frames_sent_in_capture_order:
  "(case sessionPromise (uplink_run createBlob es uplink_initial) of
      Pending \<Rightarrow>
        wire (uplink_run createBlob es uplink_initial) = [] \<and>
        reactions (uplink_run createBlob es uplink_initial) = map createBlob (captured es)
    | Fulfilled \<Rightarrow>
        wire (uplink_run createBlob es uplink_initial) = map createBlob (captured es) \<and>
        reactions (uplink_run createBlob es uplink_initial) = []
    | Rejected \<Rightarrow>
        wire (uplink_run createBlob es uplink_initial) = [] \<and>
        reactions (uplink_run createBlob es uplink_initial) = []) \<and>
   (sessionPromise u = Fulfilled \<longrightarrow>
      wire (onaudioprocess createBlob inputData u) = wire u @ [createBlob inputData]) \<and>
   (\<exists>more. wire (uplink_step createBlob e u) = wire u @ more)"
proof -
  have "in_order createBlob [] uplink_initial"
    by (simp add: in_order_def uplink_initial_def)
  from in_order_run[OF this, of es]
  have "in_order createBlob (captured es) (uplink_run createBlob es uplink_initial)"
    by simp
  moreover have "\<exists>more. wire (uplink_step createBlob e u) = wire u @ more"
    by (cases e; cases "sessionPromise u")
      (simp_all add: onaudioprocess_def session_fulfilled_def session_rejected_def)
  ultimately show ?thesis
    by (simp add: in_order_def onaudioprocess_def)
qed

theorem frames_sent_in_capture_order_witness:
  "wire (uplink_run Suc demo_frames uplink_initial) = [2, 3, 4] \<and>
   sessionPromise (uplink_run Suc [Frame 1, Frame 2, SessionFulfilled] uplink_initial) = Fulfilled \<and>
   wire (onaudioprocess Suc 3 (uplink_run Suc [Frame 1, Frame 2, SessionFulfilled] uplink_initial)) =
     wire (uplink_run Suc [Frame 1, Frame 2, SessionFulfilled] uplink_initial) @ [4]"
proof -
  have f: "sessionPromise (uplink_run Suc [Frame 1, Frame 2, SessionFulfilled] uplink_initial) = Fulfilled"
    by (simp add: uplink_initial_def onaudioprocess_def session_fulfilled_def)
  have g: "sessionPromise (uplink_run Suc demo_frames uplink_initial) = Fulfilled"
    by (simp add: demo_frames_def uplink_initial_def onaudioprocess_def session_fulfilled_def)
  have c: "map Suc (captured demo_frames) = [2, 3, 4]"
    by (simp add: demo_frames_def)
  from frames_sent_in_capture_order[of Suc demo_frames
      "uplink_run Suc [Frame 1, Frame 2, SessionFulfilled] uplink_initial" 3 "Frame 3"]
  show ?thesis using f g c by simp
qed


section \<open>Project storage\<close>

lemma mset_insert_sorted: "mset (insert_sorted cmp x ys) = add_mset x (mset ys)"
  by (induction ys) simp_all

lemma mset_array_sort: "mset (array_sort cmp xs) = mset xs"
  by (induction xs) (simp_all add: mset_insert_sorted)

lemma set_insert_sorted: "set (insert_sorted cmp x ys) = insert x (set ys)"
  by (induction ys) auto

lemma newest_first_insert:
  "sorted_wrt (\<lambda>a b. updatedAt b \<le> updatedAt a) ys \<Longrightarrow>
   sorted_wrt (\<lambda>a b. updatedAt b \<le> updatedAt a) (insert_sorted compareUpdatedAt x ys)"
proof (induction ys)
  case Nil
  then show ?case by simp
next
  case (Cons y ys)
  show ?case
  proof (cases "compareUpdatedAt x y \<le> 0")
    case True
    then have xy: "updatedAt y \<le> updatedAt x" by (simp add: compareUpdatedAt_def)
    have "\<forall>z \<in> set ys. updatedAt z \<le> updatedAt y" using Cons.prems by simp
    with xy have "\<forall>z \<in> set ys. updatedAt z \<le> updatedAt x" by auto
    with xy True Cons.prems show ?thesis by simp
  next
    case False
    then have "updatedAt x \<le> updatedAt y" by (simp add: compareUpdatedAt_def)
    with False Cons show ?thesis by (auto simp add: set_insert_sorted)
  qed
qed

lemma newest_first_array_sort:
  "sorted_wrt (\<lambda>a b. updatedAt b \<le> updatedAt a) (array_sort compareUpdatedAt xs)"
  by (induction xs) (simp_all add: newest_first_insert)

text \<open>
  C10. For every content of the store and every user id, \<open>getProjectsByUser\<close> gives
  exactly the stored projects whose \<open>userId\<close> is the id asked for, each as often as it is
  stored, none of another user, ordered by \<open>updatedAt\<close> from the newest to the oldest.
\<close>

theorem getProjectsByUser_own_newest_first:
  "mset (getProjectsByUser records uid) = mset (filter (\<lambda>p. userId p = uid) records) \<and>
   set (getProjectsByUser records uid) = {p \<in> set records. userId p = uid} \<and>
   (\<forall>p \<in> set (getProjectsByUser records uid). userId p = uid) \<and>
   sorted_wrt (\<lambda>a b. updatedAt b \<le> updatedAt a) (getProjectsByUser records uid)"
proof -
  have m: "mset (getProjectsByUser records uid) = mset (filter (\<lambda>p. userId p = uid) records)"
    by (simp add: getProjectsByUser_def index_getAll_def mset_array_sort)
  then have "set (getProjectsByUser records uid) = set (filter (\<lambda>p. userId p = uid) records)"
    by (rule mset_eq_setD)
  then have s: "set (getProjectsByUser records uid) = {p \<in> set records. userId p = uid}"
    by simp
  show ?thesis
    using m s by (simp add: getProjectsByUser_def newest_first_array_sort)
qed

theorem getProjectsByUser_own_newest_first_witness:
  "map project_id (getProjectsByUser demo_store ''alice'') = [''p3'', ''p1''] \<and>
   set (getProjectsByUser demo_store ''alice'') =
     {p \<in> set demo_store. userId p = ''alice''} \<and>
   list_all (\<lambda>p. userId p = ''alice'') (getProjectsByUser demo_store ''alice'')"
proof -
  note own = getProjectsByUser_own_newest_first[of demo_store "''alice''"]
  have "map project_id (getProjectsByUser demo_store ''alice'') = [''p3'', ''p1'']"
    by (simp add: getProjectsByUser_def index_getAll_def demo_store_def demo_project_def
        compareUpdatedAt_def)
  moreover have "set (getProjectsByUser demo_store ''alice'') =
     {p \<in> set demo_store. userId p = ''alice''}"
    by (rule own[THEN conjunct2, THEN conjunct1])
  moreover have "list_all (\<lambda>p. userId p = ''alice'') (getProjectsByUser demo_store ''alice'')"
    unfolding list_all_iff by (rule own[THEN conjunct2, THEN conjunct2, THEN conjunct1])
  ultimately show ?thesis by (intro conjI)
qed

end
